theory Spec2Isabelle
  imports Complex_Main
begin

section \<open>PPO baseline and flatten wrappers of ManiSkill3: a shallow embedding\<close>

text \<open>
  The development follows two source files:
  \<^item> \<^verbatim>\<open>examples/baselines/ppo/ppo_rgb_sb3.py\<close>: the rollout buffer \<^verbatim>\<open>DictArray\<close>, the
    rollout collection, the advantage estimation and the PPO update;
  \<^item> \<^verbatim>\<open>mani_skill/utils/wrappers/flatten.py\<close>: the observation and action flatteners.

  Conventions. A Python or torch floating-point number is a \<^typ>\<open>real\<close>: the theorems
  are about the arithmetic the code writes down, not about rounding. A tensor whose
  leading axis ranges over the parallel environments is the list of its entries; a
  buffer of shape \<^verbatim>\<open>(num_steps, num_envs)\<close> is a list of such rows. Every exception the
  modelled code can raise is a value of \<open>error\<close>.
\<close>

subsection \<open>Errors and hyperparameters\<close>

datatype error = KeyError | IndexError | ValueError | RuntimeError
  | NameError | StopIteration

text \<open>The fields of the dataclass \<^verbatim>\<open>Args\<close> that the modelled code reads.\<close>

record Args =
  num_envs :: nat
  num_steps :: nat
  gamma :: real
  gae_lambda :: real
  num_minibatches :: nat
  update_epochs :: nat
  norm_adv :: bool
  clip_coef :: real
  clip_vloss :: bool
  ent_coef :: real
  vf_coef :: real
  target_kl :: "real option"
  finite_horizon_gae :: bool
  batch_size :: nat
  minibatch_size :: nat

text \<open>The defaults of the dataclass, and the fields computed at start-up (lines 270, 271).\<close>

definition default_args :: Args where
  "default_args = \<lparr> num_envs = 1, num_steps = 50, gamma = 8 / 10, gae_lambda = 9 / 10,
     num_minibatches = 32, update_epochs = 4, norm_adv = False, clip_coef = 2 / 10,
     clip_vloss = False, ent_coef = 0, vf_coef = 5 / 10, target_kl = Some (2 / 10),
     finite_horizon_gae = True, batch_size = 0, minibatch_size = 0 \<rparr>"

definition runtime_args :: "Args \<Rightarrow> Args" where
  "runtime_args args =
     (let bs = num_envs args * num_steps args
      in args \<lparr> batch_size := bs, minibatch_size := bs div num_minibatches args \<rparr>)"

subsection \<open>Elementwise tensor arithmetic\<close>

text \<open>\<^verbatim>\<open>x.mean()\<close> of a one-dimensional tensor.\<close>

definition mean :: "real list \<Rightarrow> real" where
  "mean xs = sum_list xs / real (length xs)"

text \<open>\<^verbatim>\<open>torch.clamp(x, lo, hi)\<close> is \<^verbatim>\<open>min(max(x, lo), hi)\<close>.\<close>

definition clamp :: "real \<Rightarrow> real \<Rightarrow> real \<Rightarrow> real" where
  "clamp x lo hi = min (max x lo) hi"

text \<open>\<^verbatim>\<open>x.std()\<close>: the sample standard deviation (Bessel's correction).\<close>

definition std :: "real list \<Rightarrow> real" where
  "std xs = sqrt (sum_list (map (\<lambda>x. (x - mean xs)\<^sup>2) xs) / (real (length xs) - 1))"

text \<open>\<^verbatim>\<open>np.var(x)\<close>: the population variance.\<close>

definition var :: "real list \<Rightarrow> real" where
  "var xs = mean (map (\<lambda>x. (x - mean xs)\<^sup>2) xs)"

subsection \<open>The losses and diagnostics of one minibatch\<close>

text \<open>
  Lines 523 to 541 of the training script, as functions of the new and old
  log-probabilities and of the advantages of the minibatch.
\<close>

definition logratio :: "real list \<Rightarrow> real list \<Rightarrow> real list" where
  "logratio newlogprob old_logprobs = map2 (-) newlogprob old_logprobs"

definition ratio :: "real list \<Rightarrow> real list" where
  "ratio lr = map exp lr"

definition old_approx_kl :: "real list \<Rightarrow> real" where
  "old_approx_kl lr = mean (map uminus lr)"

definition approx_kl :: "real list \<Rightarrow> real" where
  "approx_kl lr = mean (map2 (-) (map (\<lambda>r. r - 1) (ratio lr)) lr)"

definition clipfrac :: "Args \<Rightarrow> real list \<Rightarrow> real" where
  "clipfrac args rs = mean (map (\<lambda>r. if \<bar>r - 1\<bar> > clip_coef args then 1 else 0) rs)"

definition normalize_advantages :: "Args \<Rightarrow> real list \<Rightarrow> real list" where
  "normalize_advantages args mb_advantages =
     (if norm_adv args
      then map (\<lambda>a. (a - mean mb_advantages) / (std mb_advantages + 1 / 10 ^ 8)) mb_advantages
      else mb_advantages)"

definition pg_loss :: "Args \<Rightarrow> real list \<Rightarrow> real list \<Rightarrow> real" where
  "pg_loss args mb_advantages0 rs =
     (let mb_advantages = normalize_advantages args mb_advantages0;
          pg_loss1 = map2 (\<lambda>a r. - a * r) mb_advantages rs;
          pg_loss2 = map2 (\<lambda>a r. - a * clamp r (1 - clip_coef args) (1 + clip_coef args))
                       mb_advantages rs
      in mean (map2 max pg_loss1 pg_loss2))"

subsection \<open>Explained variance\<close>

text \<open>
  A logged metric is a number or numpy's \<^verbatim>\<open>nan\<close>. Lines 569 to 571: \<^verbatim>\<open>y_pred\<close> are the
  flattened stored values, \<^verbatim>\<open>y_true\<close> the flattened returns.
\<close>

datatype metric = NaN | Finite real

definition explained_var :: "real list \<Rightarrow> real list \<Rightarrow> metric" where
  "explained_var y_pred y_true =
     (let var_y = var y_true
      in if var_y = 0 then NaN
         else Finite (1 - var (map2 (-) y_true y_pred) / var_y))"

subsection \<open>The rollout buffers\<close>

text \<open>
  The storage set up at lines 352 to 356 and 381, together with \<^verbatim>\<open>next_done\<close> and the
  critic's \<^verbatim>\<open>next_value\<close> (line 462, reshaped to one row): each buffer is a list of
  \<^verbatim>\<open>num_steps\<close> rows, a row holds one number per environment.
\<close>

record rollout =
  rewards :: "real list list"
  dones :: "real list list"
  values_buf :: "real list list"
  final_values :: "real list list"
  next_done :: "real list"
  next_value :: "real list"

text \<open>Broadcast arithmetic on rows: tensor with tensor, and Python scalar with tensor.\<close>

definition vadd :: "real list \<Rightarrow> real list \<Rightarrow> real list" where
  "vadd xs ys = map2 (+) xs ys"

definition vsub :: "real list \<Rightarrow> real list \<Rightarrow> real list" where
  "vsub xs ys = map2 (-) xs ys"

definition vmul :: "real list \<Rightarrow> real list \<Rightarrow> real list" where
  "vmul xs ys = map2 (*) xs ys"

definition vdiv :: "real list \<Rightarrow> real list \<Rightarrow> real list" where
  "vdiv xs ys = map2 (/) xs ys"

definition smul :: "real \<Rightarrow> real list \<Rightarrow> real list" where
  "smul c xs = map (\<lambda>x. c * x) xs"

subsection \<open>Advantage estimation\<close>

text \<open>
  The variables the backward loop of lines 465 to 500 carries from one step to the next.
  \<^verbatim>\<open>lastgaelam\<close> and the three sums start as the Python scalar 0, which broadcasts
  against a row; here they are rows of zeros.
\<close>

record gae_state =
  advantages :: "real list list"
  lastgaelam :: "real list"
  lam_coef_sum :: "real list"
  reward_term_sum :: "real list"
  value_term_sum :: "real list"

text \<open>Lines 466 to 472.\<close>

definition next_not_done :: "Args \<Rightarrow> rollout \<Rightarrow> nat \<Rightarrow> real list" where
  "next_not_done args ro t =
     (if Suc t = num_steps args then map (\<lambda>d. 1 - d) (next_done ro)
      else map (\<lambda>d. 1 - d) (dones ro ! (t + 1)))"

definition nextvalues :: "Args \<Rightarrow> rollout \<Rightarrow> nat \<Rightarrow> real list" where
  "nextvalues args ro t =
     (if Suc t = num_steps args then next_value ro else values_buf ro ! (t + 1))"

definition real_next_values :: "Args \<Rightarrow> rollout \<Rightarrow> nat \<Rightarrow> real list" where
  "real_next_values args ro t =
     vadd (vmul (next_not_done args ro t) (nextvalues args ro t)) (final_values ro ! t)"

text \<open>The body of the loop for one \<open>t\<close>: lines 476 to 500.\<close>

definition gae_body :: "Args \<Rightarrow> rollout \<Rightarrow> nat \<Rightarrow> gae_state \<Rightarrow> gae_state" where
  "gae_body args ro t s =
     (let nnd = next_not_done args ro t;
          rnv = real_next_values args ro t
      in if finite_horizon_gae args then
           let zeros = replicate (length nnd) 0;
               c0 = (if Suc t = num_steps args then zeros else lam_coef_sum s);
               r0 = (if Suc t = num_steps args then zeros else reward_term_sum s);
               v0 = (if Suc t = num_steps args then zeros else value_term_sum s);
               c1 = vmul c0 nnd;
               r1 = vmul r0 nnd;
               v1 = vmul v0 nnd;
               c2 = map (\<lambda>c. 1 + gae_lambda args * c) c1;
               r2 = vadd (smul (gae_lambda args * gamma args) r1) (vmul c2 (rewards ro ! t));
               v2 = vadd (smul (gae_lambda args * gamma args) v1) (smul (gamma args) rnv)
           in s \<lparr> advantages := (advantages s)[t := vsub (vdiv (vadd r2 v2) c2) (values_buf ro ! t)],
                  lam_coef_sum := c2, reward_term_sum := r2, value_term_sum := v2 \<rparr>
         else
           let delta = vsub (vadd (rewards ro ! t) (smul (gamma args) rnv)) (values_buf ro ! t);
               lgl = vadd delta (vmul (smul (gamma args * gae_lambda args) nnd) (lastgaelam s))
           in s \<lparr> advantages := (advantages s)[t := lgl], lastgaelam := lgl \<rparr>)"

text \<open>
  \<^verbatim>\<open>for t in reversed(range(lo, lo + n))\<close>; the loop of line 465 has \<open>lo = 0\<close> and
  \<open>n = num_steps\<close>, and stopping it at a larger \<open>lo\<close> gives the variables as they are
  after the pass for \<open>t = lo\<close>.
\<close>

fun gae_loop :: "Args \<Rightarrow> rollout \<Rightarrow> nat \<Rightarrow> nat \<Rightarrow> gae_state \<Rightarrow> gae_state" where
  "gae_loop args ro lo 0 s = s"
| "gae_loop args ro lo (Suc n) s = gae_loop args ro lo n (gae_body args ro (lo + n) s)"

text \<open>Line 463 and line 464: what the loop starts from.\<close>

definition gae_init :: "Args \<Rightarrow> rollout \<Rightarrow> gae_state" where
  "gae_init args ro =
     \<lparr> advantages = map (map (\<lambda>_. 0)) (rewards ro),
       lastgaelam = replicate (num_envs args) 0,
       lam_coef_sum = replicate (num_envs args) 0,
       reward_term_sum = replicate (num_envs args) 0,
       value_term_sum = replicate (num_envs args) 0 \<rparr>"

definition gae_after :: "Args \<Rightarrow> rollout \<Rightarrow> nat \<Rightarrow> gae_state" where
  "gae_after args ro t = gae_loop args ro t (num_steps args - t) (gae_init args ro)"

text \<open>Lines 461 to 501: the advantages, and the returns \<^verbatim>\<open>advantages + values\<close>.\<close>

definition compute_advantages :: "Args \<Rightarrow> rollout \<Rightarrow> real list list" where
  "compute_advantages args ro = advantages (gae_after args ro 0)"

definition compute_returns :: "Args \<Rightarrow> rollout \<Rightarrow> real list list" where
  "compute_returns args ro = map2 vadd (compute_advantages args ro) (values_buf ro)"

text \<open>
  What the buffers of a collected rollout satisfy: their shapes; every done flag is 0 or 1
  (line 446 converts a Boolean); and the bootstrap buffer is zero wherever the episode
  did not end at that step (the comment of lines 473 to 475).
\<close>

definition done_after :: "Args \<Rightarrow> rollout \<Rightarrow> nat \<Rightarrow> real list" where
  "done_after args ro t = (if Suc t = num_steps args then next_done ro else dones ro ! (t + 1))"

definition shape_ok :: "Args \<Rightarrow> real list list \<Rightarrow> bool" where
  "shape_ok args rows \<longleftrightarrow>
     length rows = num_steps args \<and> list_all (\<lambda>row. length row = num_envs args) rows"

definition wf_rollout :: "Args \<Rightarrow> rollout \<Rightarrow> bool" where
  "wf_rollout args ro \<longleftrightarrow>
     shape_ok args (rewards ro) \<and> shape_ok args (dones ro) \<and> shape_ok args (values_buf ro) \<and>
     shape_ok args (final_values ro) \<and>
     length (next_done ro) = num_envs args \<and> length (next_value ro) = num_envs args"

definition flags_ok :: "rollout \<Rightarrow> bool" where
  "flags_ok ro \<longleftrightarrow>
     list_all (list_all (\<lambda>d. d = 0 \<or> d = 1)) (dones ro) \<and>
     list_all (\<lambda>d. d = 0 \<or> d = 1) (next_done ro)"

definition bootstrap_sparse :: "Args \<Rightarrow> rollout \<Rightarrow> bool" where
  "bootstrap_sparse args ro \<longleftrightarrow>
     list_all (\<lambda>t. list_all (\<lambda>(fv, d). fv = 0 \<or> d = 1)
                    (zip (final_values ro ! t) (done_after args ro t)))
       [0..<num_steps args]"

text \<open>
  A rollout of one environment over four steps whose episode ends during step 2: rewards
  1, value estimates 2, 4, 6, 8 and 10 for the observation after the last step, bootstrap
  value 5 stored for step 2, discount \<open>1/2\<close> and \<open>\<lambda> = 1/2\<close>.
\<close>

definition boundary_args :: Args where
  "boundary_args = default_args \<lparr> num_steps := 4, gamma := 1 / 2, gae_lambda := 1 / 2 \<rparr>"

definition boundary_rollout :: rollout where
  "boundary_rollout =
     \<lparr> rewards = [[1], [1], [1], [1]], dones = [[0], [0], [0], [1]],
       values_buf = [[2], [4], [6], [8]], final_values = [[0], [0], [5], [0]],
       next_done = [0], next_value = [10] \<rparr>"

text \<open>
  A rollout of one environment over two steps in which no episode ends, with rewards 0 and
  3, value estimates 0, discount 1 and \<open>\<lambda> = 1/2\<close>; and the property that no done flag of
  a rollout is set.
\<close>

definition no_end_args :: Args where
  "no_end_args = default_args \<lparr> num_steps := 2, gamma := 1, gae_lambda := 1 / 2 \<rparr>"

definition no_end_rollout :: rollout where
  "no_end_rollout =
     \<lparr> rewards = [[0], [3]], dones = [[0], [0]], values_buf = [[0], [0]],
       final_values = [[0], [0]], next_done = [0], next_value = [0] \<rparr>"

definition no_episode_end :: "rollout \<Rightarrow> bool" where
  "no_episode_end ro \<longleftrightarrow>
     list_all (list_all (\<lambda>d. d = 0)) (dones ro) \<and> list_all (\<lambda>d. d = 0) (next_done ro)"

subsection \<open>Rollout collection\<close>

text \<open>
  A batched observation is a dictionary of tensors whose leading axis is the environment:
  an association list from key to the list of per-environment entries. The reply of the
  vectorised environment to one \<^verbatim>\<open>step\<close> call carries the dictionary \<^verbatim>\<open>infos\<close>. Of its keys
  the collector reads \<^verbatim>\<open>final_info\<close>, \<^verbatim>\<open>_final_info\<close> and \<^verbatim>\<open>final_observation\<close>, and of the
  keys of \<^verbatim>\<open>infos["final_info"]\<close> it reads \<^verbatim>\<open>episode\<close> (a dictionary of tensors), \<^verbatim>\<open>success\<close>
  and \<^verbatim>\<open>elapsed_steps\<close>. Each of these is a field here, \<open>None\<close> when the key is absent.
\<close>

type_synonym 'x obs_batch = "(string \<times> 'x list) list"

record final_stats =
  episode :: "(string \<times> real list) list option"
  success :: "bool list option"
  elapsed_steps :: "int list option"

record 'x info_dict =
  final_info :: "final_stats option"
  final_info_mask :: "bool list option"
  final_observation :: "'x obs_batch option"

record 'x step_result =
  next_obs_r :: "'x obs_batch"
  reward :: "real list"
  terminations :: "bool list"
  truncations :: "bool list"
  infos :: "'x info_dict"

text \<open>
  The agent. Its networks (convolutions, linear layers, ReLU) treat the samples of a batch
  independently, so the critic on a batch is a per-sample function mapped over the batch.
  \<^verbatim>\<open>get_action_and_value\<close> samples the action; its first argument stands for the state of
  the random generator at that call.
\<close>

record ('x, 'a) Agent =
  get_action_and_value :: "nat \<Rightarrow> 'x obs_batch \<Rightarrow> 'a \<times> real list \<times> real list"
  critic :: "(string \<times> 'x) list \<Rightarrow> real"

definition batch_len :: "'x obs_batch \<Rightarrow> nat" where
  "batch_len ob = (case ob of [] \<Rightarrow> 0 | (k, rows) # _ \<Rightarrow> length rows)"

definition sample_at :: "'x obs_batch \<Rightarrow> nat \<Rightarrow> (string \<times> 'x) list" where
  "sample_at ob e = map (\<lambda>(k, rows). (k, rows ! e)) ob"

definition get_value :: "('x, 'a) Agent \<Rightarrow> 'x obs_batch \<Rightarrow> real list" where
  "get_value agent ob = map (\<lambda>e. critic agent (sample_at ob e)) [0..<batch_len ob]"

text \<open>
  Statements that may raise are chained with \<open>bind_err\<close>: the first error ends the chain.
  \<open>lookup\<close> is the read of a dictionary key.
\<close>

definition bind_err :: "error + 'b \<Rightarrow> ('b \<Rightarrow> error + 'c) \<Rightarrow> error + 'c" where
  "bind_err x f = (case x of Inl e \<Rightarrow> Inl e | Inr v \<Rightarrow> f v)"

definition lookup :: "'b option \<Rightarrow> error + 'b" where
  "lookup x = (case x of None \<Rightarrow> Inl KeyError | Some v \<Rightarrow> Inr v)"

text \<open>
  \<^verbatim>\<open>x[mask]\<close> with a Boolean mask along the leading axis: the entries where the mask is
  set. It raises when the mask has another length than the tensor.
\<close>

fun mask_select :: "'b list \<Rightarrow> bool list \<Rightarrow> 'b list" where
  "mask_select (x # xs) (b # bs) = (if b then x # mask_select xs bs else mask_select xs bs)"
| "mask_select _ _ = []"

definition mask_index :: "'b list \<Rightarrow> bool list \<Rightarrow> error + 'b list" where
  "mask_index xs m = (if length m = length xs then Inr (mask_select xs m) else Inl IndexError)"

text \<open>
  Lines 456, 457: every key of the final observation is cut down to the masked rows, one
  key after the other.
\<close>

fun mask_obs :: "bool list \<Rightarrow> 'x obs_batch \<Rightarrow> error + 'x obs_batch" where
  "mask_obs m [] = Inr []"
| "mask_obs m ((k, rows) # rest) =
     (case mask_index rows m of
        Inl e \<Rightarrow> Inl e
      | Inr rows' \<Rightarrow>
          (case mask_obs m rest of
             Inl e \<Rightarrow> Inl e
           | Inr rest' \<Rightarrow> Inr ((k, rows') # rest')))"

text \<open>\<^verbatim>\<open>x.mean()\<close> of a tensor: \<^verbatim>\<open>nan\<close> when it has no entry.\<close>

definition tensor_mean :: "real list \<Rightarrow> metric" where
  "tensor_mean xs = (if xs = [] then NaN else Finite (mean xs))"

text \<open>
  \<^verbatim>\<open>buf[step] = x\<close> on a buffer whose leading axis is the step: it raises when the step is
  out of range. For a buffer of rows of numbers the row must have the length of the
  buffer's rows, or one entry, which is then broadcast.
\<close>

definition set_item :: "'b list \<Rightarrow> nat \<Rightarrow> 'b \<Rightarrow> error + 'b list" where
  "set_item rows step x = (if step < length rows then Inr (rows[step := x]) else Inl IndexError)"

definition assign_row :: "real list list \<Rightarrow> nat \<Rightarrow> real list \<Rightarrow> error + real list list" where
  "assign_row rows step row =
     (if step < length rows then
        (if length row = length (rows ! step) then Inr (rows[step := row])
         else if length row = 1
         then Inr (rows[step := replicate (length (rows ! step)) (hd row)])
         else Inl RuntimeError)
      else Inl IndexError)"

text \<open>
  \<^verbatim>\<open>rows[step, idxs] = vals\<close> with an index tensor: \<open>index_put\<close> writes the values,
  \<open>index_assign\<close> adds the checks. The values must be as many as the indices, or one.
\<close>

fun index_put :: "real list \<Rightarrow> nat list \<Rightarrow> real list \<Rightarrow> real list" where
  "index_put row (i # is) (v # vs) = index_put (row[i := v]) is vs"
| "index_put row _ _ = row"

definition index_assign ::
  "real list list \<Rightarrow> nat \<Rightarrow> nat list \<Rightarrow> real list \<Rightarrow> error + real list list" where
  "index_assign rows step idxs vals =
     (if step < length rows then
        (if length vals = length idxs \<or> length vals = 1 then
           (if list_all (\<lambda>i. i < length (rows ! step)) idxs then
              Inr (rows[step := index_put (rows ! step) idxs
                                  (if length vals = length idxs then vals
                                   else replicate (length idxs) (hd vals))])
            else Inl IndexError)
         else Inl RuntimeError)
      else Inl IndexError)"

text \<open>Line 446: \<^verbatim>\<open>torch.logical_or(terminations, truncations).to(torch.float32)\<close>.\<close>

definition step_done :: "'x step_result \<Rightarrow> real list" where
  "step_done res = map2 (\<lambda>a b. if a \<or> b then 1 else 0) (terminations res) (truncations res)"

text \<open>
  Lines 449 to 458. The summary writer is the list of its entries: tag, value and global
  step. The block reads the episode statistics and writes three entries before it
  evaluates the critic on the masked final observation and stores the values in the row
  \<open>step\<close> of the bootstrap buffer; every read of an absent key raises.
\<close>

type_synonym scalar_log = "(string \<times> metric \<times> nat) list"

definition final_info_block ::
  "Args \<Rightarrow> ('x, 'a) Agent \<Rightarrow> nat \<Rightarrow> nat \<Rightarrow> 'x info_dict \<Rightarrow> real list list \<Rightarrow> scalar_log
   \<Rightarrow> error + real list list \<times> scalar_log" where
  "final_info_block args agent step gs info fvs w =
     (case final_info info of
        None \<Rightarrow> Inr (fvs, w)
      | Some fi \<Rightarrow>
          bind_err (lookup (final_info_mask info)) (\<lambda>done_mask.
          bind_err (lookup (episode fi)) (\<lambda>ep.
          bind_err (lookup (map_of ep ''r'')) (\<lambda>r.
          bind_err (mask_index r done_mask) (\<lambda>rs.
          bind_err (lookup (success fi)) (\<lambda>su.
          bind_err (mask_index su done_mask) (\<lambda>ss.
          bind_err (lookup (elapsed_steps fi)) (\<lambda>el.
          bind_err (mask_index el done_mask) (\<lambda>es.
          bind_err (lookup (final_observation info)) (\<lambda>fo.
          bind_err (mask_obs done_mask fo) (\<lambda>fo'.
          bind_err (mask_index [0..<num_envs args] done_mask) (\<lambda>idxs.
          bind_err (index_assign fvs step idxs (get_value agent fo')) (\<lambda>fvs'.
          Inr (fvs',
               w @ [(''charts/success_rate'', tensor_mean (map of_bool ss), gs),
                    (''charts/episodic_return'', tensor_mean rs, gs),
                    (''charts/episodic_length'', tensor_mean (map real_of_int es), gs)])
          )))))))))))))"

text \<open>
  The state of the collector: the numeric buffers, the observation, action and
  log-probability buffers, the current observation, the step counter and the writer.
\<close>

record ('x, 'a) collector =
  buf :: rollout
  obs :: "'x obs_batch list"
  actions :: "'a list"
  logprobs :: "real list list"
  next_obs :: "'x obs_batch"
  global_step :: nat
  writer :: scalar_log

text \<open>
  The body of the loop of line 431 for one \<open>step\<close>, lines 432 to 458. The environment is
  an external collaborator: \<open>replies step\<close> is what its \<open>step\<close>-th call returns in this run.
\<close>

definition rollout_step ::
  "Args \<Rightarrow> ('x, 'a) Agent \<Rightarrow> (nat \<Rightarrow> 'x step_result) \<Rightarrow> nat
   \<Rightarrow> ('x, 'a) collector \<Rightarrow> error + ('x, 'a) collector" where
  "rollout_step args agent replies step st =
     (let gs = global_step st + num_envs args;
          b = buf st;
          (action, logprob, val) = get_action_and_value agent gs (next_obs st);
          res = replies step
      in bind_err (set_item (obs st) step (next_obs st)) (\<lambda>obs'.
         bind_err (assign_row (dones b) step (next_done b)) (\<lambda>dones'.
         bind_err (assign_row (values_buf b) step val) (\<lambda>values'.
         bind_err (set_item (actions st) step action) (\<lambda>actions'.
         bind_err (assign_row (logprobs st) step logprob) (\<lambda>logprobs'.
         bind_err (assign_row (rewards b) step (reward res)) (\<lambda>rewards'.
         bind_err (final_info_block args agent step gs (infos res) (final_values b) (writer st))
           (\<lambda>(fvs', w').
         Inr (st \<lparr> buf := b \<lparr> dones := dones', values_buf := values',
                             next_done := step_done res, rewards := rewards',
                             final_values := fvs' \<rparr>,
                   obs := obs', actions := actions', logprobs := logprobs',
                   next_obs := next_obs_r res, global_step := gs, writer := w' \<rparr>)))))))))"

text \<open>\<^verbatim>\<open>for step in range(step, step + n)\<close>.\<close>

fun rollout_loop ::
  "Args \<Rightarrow> ('x, 'a) Agent \<Rightarrow> (nat \<Rightarrow> 'x step_result) \<Rightarrow> nat \<Rightarrow> nat
   \<Rightarrow> ('x, 'a) collector \<Rightarrow> error + ('x, 'a) collector" where
  "rollout_loop args agent replies step 0 st = Inr st"
| "rollout_loop args agent replies step (Suc n) st =
     (case rollout_step args agent replies step st of
        Inl e \<Rightarrow> Inl e
      | Inr st' \<Rightarrow> rollout_loop args agent replies (Suc step) n st')"

text \<open>
  One iteration up to the advantage estimation: line 381 clears the bootstrap buffer, the
  loop of line 431 runs \<^verbatim>\<open>num_steps\<close> steps, line 462 evaluates the critic on the last
  observation.
\<close>

definition collect ::
  "Args \<Rightarrow> ('x, 'a) Agent \<Rightarrow> (nat \<Rightarrow> 'x step_result) \<Rightarrow> ('x, 'a) collector
   \<Rightarrow> error + ('x, 'a) collector" where
  "collect args agent replies st0 =
     (let st1 = st0 \<lparr> buf := (buf st0)
                 \<lparr> final_values := replicate (num_steps args) (replicate (num_envs args) 0) \<rparr> \<rparr>
      in case rollout_loop args agent replies 0 (num_steps args) st1 of
           Inl e \<Rightarrow> Inl e
         | Inr st2 \<Rightarrow>
             Inr (st2 \<lparr> buf := (buf st2) \<lparr> next_value := get_value agent (next_obs st2) \<rparr> \<rparr>))"

text \<open>
  What is assumed of the collaborators. The environment returns one entry per environment
  in every tensor. It puts \<^verbatim>\<open>final_info\<close> into \<^verbatim>\<open>infos\<close> exactly when some episode ended at
  that step, and then also the mask, which marks the environments whose episode
  terminated or was truncated, the final observation, and the statistics the collector
  reads: \<^verbatim>\<open>episode\<close> with the key \<^verbatim>\<open>r\<close>, \<^verbatim>\<open>success\<close> and \<^verbatim>\<open>elapsed_steps\<close>. The agent returns one
  log-probability and one value per environment. The buffers the iteration starts from
  have their declared shapes (lines 351 to 356, 364).
\<close>

definition stats_ok :: "Args \<Rightarrow> final_stats \<Rightarrow> bool" where
  "stats_ok args fi \<longleftrightarrow>
     (case episode fi of
        None \<Rightarrow> False
      | Some ep \<Rightarrow> (case map_of ep ''r'' of
                      None \<Rightarrow> False | Some r \<Rightarrow> length r = num_envs args)) \<and>
     (case success fi of None \<Rightarrow> False | Some su \<Rightarrow> length su = num_envs args) \<and>
     (case elapsed_steps fi of None \<Rightarrow> False | Some el \<Rightarrow> length el = num_envs args)"

definition reply_ok :: "Args \<Rightarrow> 'x step_result \<Rightarrow> bool" where
  "reply_ok args res \<longleftrightarrow>
     length (reward res) = num_envs args \<and>
     length (terminations res) = num_envs args \<and>
     length (truncations res) = num_envs args \<and>
     batch_len (next_obs_r res) = num_envs args \<and>
     (case final_info (infos res) of
        None \<Rightarrow> list_all (\<lambda>d. d = 0) (step_done res)
      | Some fi \<Rightarrow>
          stats_ok args fi \<and>
          (case final_info_mask (infos res) of
             None \<Rightarrow> False
           | Some done_mask \<Rightarrow>
               length done_mask = num_envs args \<and>
               list_all (\<lambda>(m, d). m = (d = 1)) (zip done_mask (step_done res))) \<and>
          (case final_observation (infos res) of
             None \<Rightarrow> False
           | Some fo \<Rightarrow>
               fo \<noteq> [] \<and> list_all (\<lambda>(k, rows). length rows = num_envs args) fo))"

definition agent_ok :: "Args \<Rightarrow> ('x, 'a) Agent \<Rightarrow> bool" where
  "agent_ok args agent \<longleftrightarrow>
     (\<forall>gs ob. length (fst (snd (get_action_and_value agent gs ob))) = num_envs args \<and>
              length (snd (snd (get_action_and_value agent gs ob))) = num_envs args)"

definition start_ok :: "Args \<Rightarrow> ('x, 'a) collector \<Rightarrow> bool" where
  "start_ok args st \<longleftrightarrow>
     shape_ok args (rewards (buf st)) \<and>
     shape_ok args (dones (buf st)) \<and>
     shape_ok args (values_buf (buf st)) \<and>
     shape_ok args (logprobs st) \<and>
     length (obs st) = num_steps args \<and>
     length (actions st) = num_steps args \<and>
     length (next_done (buf st)) = num_envs args \<and>
     list_all (\<lambda>d. d = 0 \<or> d = 1) (next_done (buf st)) \<and>
     batch_len (next_obs st) = num_envs args"

text \<open>
  A run of two steps with two environments. Observations have the one key \<^verbatim>\<open>state\<close> and
  the critic returns that entry. During step 0 the episode of environment 1 ends: its
  final observation is 7, the observation after the automatic reset is 20. The second
  run differs in that the environment does not report \<^verbatim>\<open>success\<close>.
\<close>

definition demo_args :: Args where
  "demo_args = default_args \<lparr> num_envs := 2, num_steps := 2 \<rparr>"

definition demo_agent :: "(real, unit) Agent" where
  "demo_agent =
     \<lparr> get_action_and_value = (\<lambda>gs ob. ((), [0, 0], [0, 0])),
       critic = (\<lambda>sample. case sample of [] \<Rightarrow> 0 | (k, v) # _ \<Rightarrow> v) \<rparr>"

definition demo_stats :: final_stats where
  "demo_stats =
     \<lparr> episode = Some [(''r'', [0, 5])], success = Some [False, True],
       elapsed_steps = Some [0, 1] \<rparr>"

definition no_infos :: "real info_dict" where
  "no_infos = \<lparr> final_info = None, final_info_mask = None, final_observation = None \<rparr>"

definition demo_replies_with :: "final_stats \<Rightarrow> nat \<Rightarrow> real step_result" where
  "demo_replies_with stats step =
     (if step = 0
      then \<lparr> next_obs_r = [(''state'', [10, 20])], reward = [1, 1],
             terminations = [False, True], truncations = [False, False],
             infos = \<lparr> final_info = Some stats,
                       final_info_mask = Some [False, True],
                       final_observation = Some [(''state'', [3, 7])] \<rparr> \<rparr>
      else \<lparr> next_obs_r = [(''state'', [11, 21])], reward = [1, 1],
             terminations = [False, False], truncations = [False, False],
             infos = no_infos \<rparr>)"

definition demo_replies :: "nat \<Rightarrow> real step_result" where
  "demo_replies = demo_replies_with demo_stats"

definition demo_replies_no_success :: "nat \<Rightarrow> real step_result" where
  "demo_replies_no_success = demo_replies_with (demo_stats \<lparr> success := None \<rparr>)"

definition demo_start :: "(real, unit) collector" where
  "demo_start =
     \<lparr> buf = \<lparr> rewards = [[0, 0], [0, 0]], dones = [[0, 0], [0, 0]],
               values_buf = [[0, 0], [0, 0]], final_values = [[0, 0], [0, 0]],
               next_done = [0, 0], next_value = [] \<rparr>,
       obs = [[], []], actions = [(), ()], logprobs = [[0, 0], [0, 0]],
       next_obs = [(''state'', [1, 2])], global_step = 0, writer = [] \<rparr>"

subsection \<open>The PPO update\<close>

text \<open>
  The flattened batch of lines 504 to 509, and the two things the update needs from the
  outside. \<^verbatim>\<open>evaluate\<close> is \<^verbatim>\<open>agent.get_action_and_value(b_obs[mb_inds], b_actions[mb_inds])\<close>
  under given parameters: the new log-probabilities, the entropies and the new values.
  \<^verbatim>\<open>optimizer_step\<close> stands for lines 561 to 564 (zero the gradients, backpropagate the
  loss, clip the gradient norm, step Adam): it maps the parameters, which include the
  optimizer's own state, and the loss as a function of the parameters to new parameters.
\<close>

record ('o, 'a) batch =
  b_obs :: "'o list"
  b_logprobs :: "real list"
  b_actions :: "'a list"
  b_advantages :: "real list"
  b_returns :: "real list"
  b_values :: "real list"

record ('p, 'o, 'a) Learner =
  evaluate :: "'p \<Rightarrow> 'o list \<Rightarrow> 'a list \<Rightarrow> real list \<times> real list \<times> real list"
  optimizer_step :: "'p \<Rightarrow> ('p \<Rightarrow> real) \<Rightarrow> 'p"

text \<open>\<^verbatim>\<open>x[mb_inds]\<close> with an index array.\<close>

definition gather :: "'b list \<Rightarrow> nat list \<Rightarrow> 'b list" where
  "gather xs inds = map (\<lambda>i. xs ! i) inds"

text \<open>Lines 543 to 556.\<close>

definition v_loss :: "Args \<Rightarrow> real list \<Rightarrow> real list \<Rightarrow> real list \<Rightarrow> real" where
  "v_loss args newvalue mb_returns mb_values =
     (if clip_vloss args then
        let v_loss_unclipped = map (\<lambda>d. d\<^sup>2) (vsub newvalue mb_returns);
            v_clipped = vadd mb_values
              (map (\<lambda>d. clamp d (- clip_coef args) (clip_coef args)) (vsub newvalue mb_values));
            v_loss_clipped = map (\<lambda>d. d\<^sup>2) (vsub v_clipped mb_returns);
            v_loss_max = map2 max v_loss_unclipped v_loss_clipped
        in 5 / 10 * mean v_loss_max
      else 5 / 10 * mean (map (\<lambda>d. d\<^sup>2) (vsub newvalue mb_returns)))"

text \<open>Lines 522 to 529: the log-ratios of a minibatch under given parameters.\<close>

definition mb_logratio ::
  "('p, 'o, 'a) Learner \<Rightarrow> ('o, 'a) batch \<Rightarrow> 'p \<Rightarrow> nat list \<Rightarrow> real list" where
  "mb_logratio learner b \<theta> mb_inds =
     (let (newlogprob, entropy, newvalue) =
            evaluate learner \<theta> (gather (b_obs b) mb_inds) (gather (b_actions b) mb_inds)
      in logratio newlogprob (gather (b_logprobs b) mb_inds))"

text \<open>
  Lines 522 to 559: the policy loss, the value loss and the entropy term of a minibatch,
  and the loss, as functions of the parameters.
\<close>

definition mb_pg_loss ::
  "Args \<Rightarrow> ('p, 'o, 'a) Learner \<Rightarrow> ('o, 'a) batch \<Rightarrow> nat list \<Rightarrow> 'p \<Rightarrow> real" where
  "mb_pg_loss args learner b mb_inds \<theta> =
     (let (newlogprob, entropy, newvalue) =
            evaluate learner \<theta> (gather (b_obs b) mb_inds) (gather (b_actions b) mb_inds)
      in pg_loss args (gather (b_advantages b) mb_inds)
           (ratio (logratio newlogprob (gather (b_logprobs b) mb_inds))))"

definition mb_v_loss ::
  "Args \<Rightarrow> ('p, 'o, 'a) Learner \<Rightarrow> ('o, 'a) batch \<Rightarrow> nat list \<Rightarrow> 'p \<Rightarrow> real" where
  "mb_v_loss args learner b mb_inds \<theta> =
     (let (newlogprob, entropy, newvalue) =
            evaluate learner \<theta> (gather (b_obs b) mb_inds) (gather (b_actions b) mb_inds)
      in v_loss args newvalue (gather (b_returns b) mb_inds) (gather (b_values b) mb_inds))"

definition mb_entropy_loss ::
  "('p, 'o, 'a) Learner \<Rightarrow> ('o, 'a) batch \<Rightarrow> nat list \<Rightarrow> 'p \<Rightarrow> real" where
  "mb_entropy_loss learner b mb_inds \<theta> =
     (let (newlogprob, entropy, newvalue) =
            evaluate learner \<theta> (gather (b_obs b) mb_inds) (gather (b_actions b) mb_inds)
      in mean entropy)"

definition loss ::
  "Args \<Rightarrow> ('p, 'o, 'a) Learner \<Rightarrow> ('o, 'a) batch \<Rightarrow> nat list \<Rightarrow> 'p \<Rightarrow> real" where
  "loss args learner b mb_inds \<theta> =
     mb_pg_loss args learner b mb_inds \<theta>
     - ent_coef args * mb_entropy_loss learner b mb_inds \<theta>
     + mb_v_loss args learner b mb_inds \<theta> * vf_coef args"

text \<open>
  The variables the update of an iteration changes: the parameters; the Python variables
  \<^verbatim>\<open>old_approx_kl\<close>, \<^verbatim>\<open>approx_kl\<close>, \<^verbatim>\<open>pg_loss\<close>, \<^verbatim>\<open>v_loss\<close> and \<^verbatim>\<open>entropy_loss\<close>, each of
  them unbound (\<open>None\<close>) until its first assignment and kept from one iteration to the
  next; the list \<^verbatim>\<open>clipfracs\<close>; and a counter of the calls of \<^verbatim>\<open>optimizer.step()\<close>.
\<close>

record 'p update_state =
  params :: 'p
  old_approx_kl_var :: "real option"
  approx_kl_var :: "real option"
  pg_loss_var :: "real option"
  v_loss_var :: "real option"
  entropy_loss_var :: "real option"
  clipfracs :: "real list"
  n_updates :: nat

definition kl_exceeded :: "Args \<Rightarrow> real \<Rightarrow> bool" where
  "kl_exceeded args kl = (case target_kl args of None \<Rightarrow> False | Some tk \<Rightarrow> kl > tk)"

text \<open>
  Lines 522 to 564 for one minibatch. The second component says whether line 533 left
  the loop.
\<close>

definition minibatch_body ::
  "Args \<Rightarrow> ('p, 'o, 'a) Learner \<Rightarrow> ('o, 'a) batch \<Rightarrow> nat list \<Rightarrow> 'p update_state
   \<Rightarrow> 'p update_state \<times> bool" where
  "minibatch_body args learner b mb_inds s =
     (let lr = mb_logratio learner b (params s) mb_inds;
          kl = approx_kl lr;
          s1 = s \<lparr> old_approx_kl_var := Some (old_approx_kl lr),
                   approx_kl_var := Some kl,
                   clipfracs := clipfracs s @ [clipfrac args (ratio lr)] \<rparr>
      in if kl_exceeded args kl then (s1, True)
         else (s1 \<lparr> pg_loss_var := Some (mb_pg_loss args learner b mb_inds (params s)),
                    v_loss_var := Some (mb_v_loss args learner b mb_inds (params s)),
                    entropy_loss_var := Some (mb_entropy_loss learner b mb_inds (params s)),
                    params := optimizer_step learner (params s) (loss args learner b mb_inds),
                    n_updates := Suc (n_updates s) \<rparr>, False))"

text \<open>The loop of line 518 over given minibatches; \<^verbatim>\<open>break\<close> ends it.\<close>

fun minibatch_loop ::
  "Args \<Rightarrow> ('p, 'o, 'a) Learner \<Rightarrow> ('o, 'a) batch \<Rightarrow> nat list list \<Rightarrow> 'p update_state
   \<Rightarrow> 'p update_state" where
  "minibatch_loop args learner b [] s = s"
| "minibatch_loop args learner b (mb_inds # rest) s =
     (case minibatch_body args learner b mb_inds s of
        (s', True) \<Rightarrow> s'
      | (s', False) \<Rightarrow> minibatch_loop args learner b rest s')"

text \<open>
  \<^verbatim>\<open>range(0, batch_size, minibatch_size)\<close> and the slices \<^verbatim>\<open>b_inds[start:end]\<close> of lines 518
  to 520.
\<close>

definition range_starts :: "Args \<Rightarrow> nat list" where
  "range_starts args =
     map (\<lambda>i. i * minibatch_size args)
       [0..<(batch_size args + minibatch_size args - 1) div minibatch_size args]"

definition minibatches :: "Args \<Rightarrow> nat list \<Rightarrow> nat list list" where
  "minibatches args b_inds =
     map (\<lambda>start. take (minibatch_size args) (drop start b_inds)) (range_starts args)"

text \<open>
  The loop of line 516. \<^verbatim>\<open>np.random.shuffle\<close> is not modelled: the argument lists, for
  every epoch, the index array as it is after that epoch's shuffle. A zero step makes
  \<^verbatim>\<open>range\<close> raise; line 566 reads \<^verbatim>\<open>approx_kl\<close>, which raises when it is unbound.
\<close>

fun epoch_loop ::
  "Args \<Rightarrow> ('p, 'o, 'a) Learner \<Rightarrow> ('o, 'a) batch \<Rightarrow> nat list list \<Rightarrow> 'p update_state
   \<Rightarrow> error + 'p update_state" where
  "epoch_loop args learner b [] s = Inr s"
| "epoch_loop args learner b (b_inds # rest) s =
     (if minibatch_size args = 0 then Inl ValueError
      else
        let s' = minibatch_loop args learner b (minibatches args b_inds) s
        in case target_kl args of
             None \<Rightarrow> epoch_loop args learner b rest s'
           | Some tk \<Rightarrow>
               (case approx_kl_var s' of
                  None \<Rightarrow> Inl NameError
                | Some kl \<Rightarrow> if kl > tk then Inr s' else epoch_loop args learner b rest s'))"

text \<open>
  \<^verbatim>\<open>np.mean\<close> of a Python list: \<^verbatim>\<open>nan\<close> on the empty list.
\<close>

definition np_mean :: "real list \<Rightarrow> metric" where
  "np_mean xs = (if xs = [] then NaN else Finite (mean xs))"

text \<open>
  Lines 569 to 580, the entries the iteration writes to the log after the update. The
  reads of \<^verbatim>\<open>v_loss\<close>, \<^verbatim>\<open>pg_loss\<close>, \<^verbatim>\<open>entropy_loss\<close>, \<^verbatim>\<open>old_approx_kl\<close> and \<^verbatim>\<open>approx_kl\<close>
  raise when the variable is unbound. The learning rate (line 573) and the timing entries
  (lines 581 to 585) read nothing that the update binds and are left out.
\<close>

definition log_losses ::
  "'p update_state \<Rightarrow> ('o, 'a) batch \<Rightarrow> error + (string \<times> metric) list" where
  "log_losses s b =
     (let explained = explained_var (b_values b) (b_returns b)
      in case v_loss_var s of None \<Rightarrow> Inl NameError | Some vl \<Rightarrow>
         case pg_loss_var s of None \<Rightarrow> Inl NameError | Some pg \<Rightarrow>
         case entropy_loss_var s of None \<Rightarrow> Inl NameError | Some el \<Rightarrow>
         case old_approx_kl_var s of None \<Rightarrow> Inl NameError | Some okl \<Rightarrow>
         case approx_kl_var s of None \<Rightarrow> Inl NameError | Some kl \<Rightarrow>
         Inr [(''losses/value_loss'', Finite vl),
              (''losses/policy_loss'', Finite pg),
              (''losses/entropy'', Finite el),
              (''losses/old_approx_kl'', Finite okl),
              (''losses/approx_kl'', Finite kl),
              (''losses/clipfrac'', np_mean (clipfracs s)),
              (''losses/explained_variance'', explained)])"

text \<open>
  Lines 511 to 580: the update of one iteration and its logging. Returning \<open>Inr\<close> is
  reaching the end of the body of the loop of line 379, from where the next iteration
  starts with the variables as they are left here.
\<close>

definition update_and_log ::
  "Args \<Rightarrow> ('p, 'o, 'a) Learner \<Rightarrow> ('o, 'a) batch \<Rightarrow> nat list list \<Rightarrow> 'p update_state
   \<Rightarrow> error + 'p update_state \<times> (string \<times> metric) list" where
  "update_and_log args learner b perms s =
     (case epoch_loop args learner b perms (s \<lparr> clipfracs := [] \<rparr>) of
        Inl e \<Rightarrow> Inl e
      | Inr s' \<Rightarrow>
          (case log_losses s' b of
             Inl e \<Rightarrow> Inl e
           | Inr entries \<Rightarrow> Inr (s', entries)))"

text \<open>The variables before the first iteration, with given initial parameters.\<close>

definition first_update_state :: "'p \<Rightarrow> 'p update_state" where
  "first_update_state \<theta> =
     \<lparr> params = \<theta>, old_approx_kl_var = None, approx_kl_var = None, pg_loss_var = None,
       v_loss_var = None, entropy_loss_var = None, clipfracs = [], n_updates = 0 \<rparr>"

text \<open>Whether the three loss variables are bound.\<close>

definition losses_bound :: "'p update_state \<Rightarrow> bool" where
  "losses_bound s \<longleftrightarrow>
     pg_loss_var s \<noteq> None \<and> v_loss_var s \<noteq> None \<and> entropy_loss_var s \<noteq> None"

text \<open>
  For the statements: the minibatches of all epochs in the order the loops visit them,
  and the parameters after optimizer steps on given minibatches.
\<close>

definition schedule :: "Args \<Rightarrow> nat list list \<Rightarrow> nat list list" where
  "schedule args perms = concat (map (minibatches args) perms)"

definition stepped ::
  "Args \<Rightarrow> ('p, 'o, 'a) Learner \<Rightarrow> ('o, 'a) batch \<Rightarrow> 'p \<Rightarrow> nat list list \<Rightarrow> 'p" where
  "stepped args learner b \<theta> mbs =
     foldl (\<lambda>\<theta>' mb_inds. optimizer_step learner \<theta>' (loss args learner b mb_inds)) \<theta> mbs"

definition mb_kl ::
  "('p, 'o, 'a) Learner \<Rightarrow> ('o, 'a) batch \<Rightarrow> 'p \<Rightarrow> nat list \<Rightarrow> real" where
  "mb_kl learner b \<theta> mb_inds = approx_kl (mb_logratio learner b \<theta> mb_inds)"

text \<open>
  Whether the minibatch at position \<open>j\<close> of a list exceeds the target, evaluated as the
  loops do: under the parameters reached by optimizer steps on all minibatches before it.
\<close>

definition exceeds_at ::
  "Args \<Rightarrow> ('p, 'o, 'a) Learner \<Rightarrow> ('o, 'a) batch \<Rightarrow> 'p \<Rightarrow> nat list list \<Rightarrow> nat \<Rightarrow> bool"
  where
  "exceeds_at args learner b \<theta> mbs j =
     kl_exceeded args (mb_kl learner b (stepped args learner b \<theta> (take j mbs)) (mbs ! j))"

text \<open>
  An update with one scalar parameter \<open>\<theta>\<close>: every new log-probability is \<open>\<theta>\<close>, the stored
  ones are 0, and an optimizer step adds 1. The batch has four samples in minibatches of
  two, the target is the default 0.2.
\<close>

definition demo_update_args :: Args where
  "demo_update_args =
     default_args \<lparr> num_envs := 2, num_steps := 2, num_minibatches := 2, update_epochs := 2,
                    batch_size := 4, minibatch_size := 2 \<rparr>"

definition demo_learner :: "(real, unit, unit) Learner" where
  "demo_learner =
     \<lparr> evaluate = (\<lambda>\<theta> os as. (map (\<lambda>_. \<theta>) os, map (\<lambda>_. 0) os, map (\<lambda>_. 0) os)),
       optimizer_step = (\<lambda>\<theta> l. \<theta> + 1) \<rparr>"

definition demo_batch :: "(unit, unit) batch" where
  "demo_batch =
     \<lparr> b_obs = [(), (), (), ()], b_logprobs = [0, 0, 0, 0], b_actions = [(), (), (), ()],
       b_advantages = [1, 2, 3, 4], b_returns = [1, 2, 3, 4], b_values = [0, 0, 0, 0] \<rparr>"

definition demo_update_start :: "real update_state" where
  "demo_update_start = first_update_state 0"

definition demo_perms :: "nat list list" where
  "demo_perms = [[0, 1, 2, 3], [3, 2, 1, 0]]"


subsection \<open>The action flattener\<close>

text \<open>
  \<^verbatim>\<open>FlattenActionSpaceWrapper\<close>. A sub-space of the original \<^verbatim>\<open>spaces.Dict\<close> is given by its
  shape; the Dict is the list of its items in their order. An action tensor has one axis
  (a single action) or two (a batch of actions, one row each).
\<close>

datatype tensor = Vec "real list" | Mat "real list list"

type_synonym dict_space = "(string \<times> nat list) list"

type_synonym nested_action = "(string \<times> real list list) list"

record FlattenActionSpaceWrapper =
  base_num_envs :: nat
  orig_single_action_space :: dict_space
  single_action_space :: "nat list"

text \<open>
  \<^verbatim>\<open>gymnasium.spaces.utils.flatten_space\<close> on a Dict of boxes: the shape of the flat box,
  one axis as long as the sub-spaces' dimensions together.
\<close>

definition flatten_space :: "dict_space \<Rightarrow> nat list" where
  "flatten_space sp = [sum_list (map (\<lambda>(k, shape). prod_list shape) sp)]"

text \<open>\<^verbatim>\<open>__init__\<close>, lines 125 to 138, without the batched space it also declares.\<close>

definition init_wrapper :: "nat \<Rightarrow> dict_space \<Rightarrow> FlattenActionSpaceWrapper" where
  "init_wrapper n sp =
     \<lparr> base_num_envs = n, orig_single_action_space = sp,
       single_action_space = flatten_space sp \<rparr>"

definition tensor_shape :: "tensor \<Rightarrow> nat list" where
  "tensor_shape a =
     (case a of
        Vec v \<Rightarrow> [length v]
      | Mat m \<Rightarrow> [length m, (case m of [] \<Rightarrow> 0 | row # _ \<Rightarrow> length row)])"

text \<open>
  Modelled from the spec: \<^verbatim>\<open>common.batch\<close> is not among the source files; the
  specification has an unbatched action promoted to a batch of size 1. It is only called
  on an action of one axis.
\<close>

definition batch :: "tensor \<Rightarrow> tensor" where
  "batch a = (case a of Vec v \<Rightarrow> Mat [v] | Mat m \<Rightarrow> Mat m)"

text \<open>\<^verbatim>\<open>action[:, start:end]\<close>: an action of one axis has no second axis to slice.\<close>

definition slice_cols :: "nat \<Rightarrow> nat \<Rightarrow> tensor \<Rightarrow> error + real list list" where
  "slice_cols start end a =
     (case a of
        Vec v \<Rightarrow> Inl IndexError
      | Mat m \<Rightarrow> Inr (map (\<lambda>row. take (end - start) (drop start row)) m))"

text \<open>\<^verbatim>\<open>d[k] = v\<close> on a dictionary that keeps insertion order.\<close>

fun dict_set :: "(string \<times> 'v) list \<Rightarrow> string \<Rightarrow> 'v \<Rightarrow> (string \<times> 'v) list" where
  "dict_set [] k v = [(k, v)]"
| "dict_set ((k', v') # d) k v = (if k' = k then (k, v) # d else (k', v') # dict_set d k v)"

text \<open>The loop of lines 154 to 157; \<^verbatim>\<open>space.shape[0]\<close> raises on a shape without axes.\<close>

fun unflatten_items ::
  "dict_space \<Rightarrow> tensor \<Rightarrow> nat \<Rightarrow> nat \<Rightarrow> nested_action \<Rightarrow> error + nested_action" where
  "unflatten_items [] a start end unflattened_action = Inr unflattened_action"
| "unflatten_items ((k, space) # rest) a start end unflattened_action =
     (case space of
        [] \<Rightarrow> Inl IndexError
      | d # _ \<Rightarrow>
          (case slice_cols start (end + d) a of
             Inl e \<Rightarrow> Inl e
           | Inr m \<Rightarrow> unflatten_items rest a (start + d) (end + d)
                        (dict_set unflattened_action k m)))"

text \<open>The method \<^verbatim>\<open>action\<close>, lines 144 to 158.\<close>

definition action :: "FlattenActionSpaceWrapper \<Rightarrow> tensor \<Rightarrow> error + nested_action" where
  "action w a =
     (let a' = (if base_num_envs w = 1 \<and> tensor_shape a = single_action_space w
                then batch a else a)
      in unflatten_items (orig_single_action_space w) a' 0 0 [])"

text \<open>
  The inverse the specification speaks of: flattening a nested batch of \<open>n\<close> actions puts,
  in every row, the components side by side in the declared key order (what
  \<^verbatim>\<open>gymnasium.spaces.utils.flatten\<close> does with a Dict sample). The wrapper itself never
  flattens an action; the policy emits flat actions.
\<close>

definition flatten_action :: "dict_space \<Rightarrow> nat \<Rightarrow> nested_action \<Rightarrow> tensor" where
  "flatten_action sp n nested =
     Mat (map (\<lambda>i. concat (map (\<lambda>(k, shape). case map_of nested k of
                                                None \<Rightarrow> [] | Some m \<Rightarrow> m ! i) sp))
            [0..<n])"

text \<open>
  For the statements: the column range \<open>[lo, hi)\<close> of every key, laid out one after the
  other from column \<open>off\<close> in the declared order, each as wide as its sub-space's
  dimension; sub-spaces of one axis, which is what the loop supports; and a nested batch of
  \<open>n\<close> actions that fits the declared sub-spaces.
\<close>

fun col_ranges :: "nat \<Rightarrow> dict_space \<Rightarrow> (string \<times> nat \<times> nat) list" where
  "col_ranges off [] = []"
| "col_ranges off ((k, shape) # rest) =
     (k, off, off + prod_list shape) # col_ranges (off + prod_list shape) rest"

definition flat_dict_space :: "dict_space \<Rightarrow> bool" where
  "flat_dict_space sp \<longleftrightarrow> distinct (map fst sp) \<and> list_all (\<lambda>(k, shape). length shape = 1) sp"

definition fits :: "dict_space \<Rightarrow> nat \<Rightarrow> nested_action \<Rightarrow> bool" where
  "fits sp n nested \<longleftrightarrow>
     map fst nested = map fst sp \<and>
     list_all (\<lambda>((k, shape), (k', m)).
                 length m = n \<and> list_all (\<lambda>row. length row = prod_list shape) m)
       (zip sp nested)"

text \<open>Two arms of three and four joints, and a batch of two nested actions for them.\<close>

definition two_arms :: dict_space where
  "two_arms = [(''panda-0'', [3]), (''panda-1'', [4])]"

definition two_arms_action :: nested_action where
  "two_arms_action =
     [(''panda-0'', [[1, 2, 3], [11, 12, 13]]), (''panda-1'', [[4, 5, 6, 7], [14, 15, 16, 17]])]"

text \<open>A Dict with one sub-space of two axes, shape \<open>(2, 3)\<close>, and one action for it, its
  six numbers in row-major order.\<close>

definition grid_space :: dict_space where
  "grid_space = [(''grid'', [2, 3])]"

definition grid_action :: nested_action where
  "grid_action = [(''grid'', [[1, 2, 3, 4, 5, 6]])]"

subsection \<open>The observation flattener\<close>

text \<open>
  \<^verbatim>\<open>FlattenRGBDObservationWrapper.observation\<close>. An image tensor of shape \<open>(\<dots>, C)\<close> is given
  by its leading axes and the list of its pixels, in row-major order of the leading axes,
  each pixel the list of its \<open>C\<close> channel values. A camera's data is a dictionary from
  \<^verbatim>\<open>rgb\<close>, \<^verbatim>\<open>depth\<close> and the like to images. The observation dictionary is given with its
  two sensor keys set apart, \<open>None\<close> standing for an absent key, and the remaining items in
  their order.
\<close>

record img_tensor =
  lead :: "nat list"
  pixels :: "real list list"

type_synonym camera = "(string \<times> img_tensor) list"

record 's raw_obs =
  sensor_data :: "(string \<times> camera) list option"
  sensor_param :: "'s option"
  others :: "(string \<times> 's) list"

datatype 'v flat_entry = StateTensor 'v | ImageTensor img_tensor

text \<open>The loop of lines 36 to 39; a missing key raises.\<close>

fun collect_images :: "bool \<Rightarrow> camera list \<Rightarrow> error + img_tensor list" where
  "collect_images rgb_only [] = Inr []"
| "collect_images rgb_only (cam_data # rest) =
     (case map_of cam_data ''rgb'' of
        None \<Rightarrow> Inl KeyError
      | Some rgb \<Rightarrow>
          if rgb_only then
            (case collect_images rgb_only rest of
               Inl e \<Rightarrow> Inl e
             | Inr images \<Rightarrow> Inr (rgb # images))
          else
            (case map_of cam_data ''depth'' of
               None \<Rightarrow> Inl KeyError
             | Some depth \<Rightarrow>
                 (case collect_images rgb_only rest of
                    Inl e \<Rightarrow> Inl e
                  | Inr images \<Rightarrow> Inr (rgb # depth # images))))"

text \<open>
  \<^verbatim>\<open>torch.concat(images, axis=-1)\<close>: it raises on an empty list and on tensors that differ
  in their leading axes.
\<close>

definition concat_last :: "img_tensor list \<Rightarrow> error + img_tensor" where
  "concat_last images =
     (case images of
        [] \<Rightarrow> Inl RuntimeError
      | im # ims \<Rightarrow>
          if list_all (\<lambda>im'. lead im' = lead im) ims
          then Inr \<lparr> lead = lead im,
                     pixels = map (\<lambda>i. concat (map (\<lambda>im'. pixels im' ! i) images))
                                  [0..<prod_list (lead im)] \<rparr>
          else Inl RuntimeError)"

text \<open>
  Lines 32 to 49. \<^verbatim>\<open>common.flatten_state_dict\<close> is not among the source files and is a
  parameter: a function from the remaining items to the state vector, or to an error.
\<close>

definition observation ::
  "((string \<times> 's) list \<Rightarrow> error + 'v) \<Rightarrow> bool \<Rightarrow> 's raw_obs
   \<Rightarrow> error + (string \<times> 'v flat_entry) list" where
  "observation flatten_state_dict rgb_only ob =
     (case sensor_data ob of
        None \<Rightarrow> Inl KeyError
      | Some sd \<Rightarrow>
          (case sensor_param ob of
             None \<Rightarrow> Inl KeyError
           | Some _ \<Rightarrow>
               (case collect_images rgb_only (map snd sd) of
                  Inl e \<Rightarrow> Inl e
                | Inr images \<Rightarrow>
                    (case concat_last images of
                       Inl e \<Rightarrow> Inl e
                     | Inr stacked \<Rightarrow>
                         (case flatten_state_dict (others ob) of
                            Inl e \<Rightarrow> Inl e
                          | Inr state \<Rightarrow>
                              if rgb_only
                              then Inr [(''state'', StateTensor state), (''rgb'', ImageTensor stacked)]
                              else Inr [(''state'', StateTensor state), (''rgbd'', ImageTensor stacked)])))))"

text \<open>
  For the statements: a camera that carries what the flattener reads, every image with the
  leading axes \<open>sh\<close>; the pixel \<open>i\<close> of a camera, colour before depth; and the stacked
  image, the cameras' pixels side by side in the cameras' order.
\<close>

definition image_ok :: "nat list \<Rightarrow> img_tensor \<Rightarrow> bool" where
  "image_ok sh im \<longleftrightarrow> lead im = sh \<and> length (pixels im) = prod_list sh"

definition camera_ok :: "bool \<Rightarrow> nat list \<Rightarrow> camera \<Rightarrow> bool" where
  "camera_ok rgb_only sh cam \<longleftrightarrow>
     (case map_of cam ''rgb'' of
        None \<Rightarrow> False
      | Some rgb \<Rightarrow>
          image_ok sh rgb \<and>
          (rgb_only \<or> (case map_of cam ''depth'' of
                          None \<Rightarrow> False | Some depth \<Rightarrow> image_ok sh depth)))"

definition camera_pixel :: "bool \<Rightarrow> camera \<Rightarrow> nat \<Rightarrow> real list" where
  "camera_pixel rgb_only cam i =
     (case map_of cam ''rgb'' of
        None \<Rightarrow> []
      | Some rgb \<Rightarrow>
          if rgb_only then pixels rgb ! i
          else pixels rgb ! i @
               (case map_of cam ''depth'' of None \<Rightarrow> [] | Some depth \<Rightarrow> pixels depth ! i))"

definition stacked_image :: "bool \<Rightarrow> nat list \<Rightarrow> camera list \<Rightarrow> img_tensor" where
  "stacked_image rgb_only sh cams =
     \<lparr> lead = sh,
       pixels = map (\<lambda>i. concat (map (\<lambda>cam. camera_pixel rgb_only cam i) cams))
                    [0..<prod_list sh] \<rparr>"

text \<open>The images that the loop appends for one camera.\<close>

definition camera_images :: "bool \<Rightarrow> camera \<Rightarrow> img_tensor list" where
  "camera_images rgb_only cam =
     (if rgb_only then [the (map_of cam ''rgb'')]
      else [the (map_of cam ''rgb''), the (map_of cam ''depth'')])"

definition lacks_rgb :: "camera \<Rightarrow> bool" where
  "lacks_rgb cam \<longleftrightarrow> map_of cam ''rgb'' = None"

text \<open>
  Observations of two cameras with images of two by one pixels: with colour and depth; with
  a camera that has no colour; and with a second camera of another resolution.
\<close>

definition img :: "nat list \<Rightarrow> real list list \<Rightarrow> img_tensor" where
  "img sh ps = \<lparr> lead = sh, pixels = ps \<rparr>"

definition demo_obs :: "real list raw_obs" where
  "demo_obs =
     \<lparr> sensor_data = Some
         [(''base_camera'', [(''rgb'', img [2, 1] [[1, 2, 3], [4, 5, 6]]),
                             (''depth'', img [2, 1] [[7], [8]])]),
          (''hand_camera'', [(''rgb'', img [2, 1] [[11, 12, 13], [14, 15, 16]]),
                             (''depth'', img [2, 1] [[17], [18]])])],
       sensor_param = Some [],
       others = [(''agent'', [1, 2]), (''extra'', [3])] \<rparr>"

definition demo_obs_no_rgb :: "real list raw_obs" where
  "demo_obs_no_rgb =
     \<lparr> sensor_data = Some
         [(''base_camera'', [(''rgb'', img [2, 1] [[1, 2, 3], [4, 5, 6]]),
                             (''depth'', img [2, 1] [[7], [8]])]),
          (''hand_camera'', [(''depth'', img [2, 1] [[17], [18]])])],
       sensor_param = Some [],
       others = [(''agent'', [1, 2]), (''extra'', [3])] \<rparr>"

definition demo_obs_mixed :: "real list raw_obs" where
  "demo_obs_mixed =
     \<lparr> sensor_data = Some
         [(''base_camera'', [(''rgb'', img [2, 1] [[1, 2, 3], [4, 5, 6]]),
                             (''depth'', img [2, 1] [[7], [8]])]),
          (''hand_camera'', [(''rgb'', img [1, 1] [[11, 12, 13]]),
                             (''depth'', img [1, 1] [[17]])])],
       sensor_param = Some [],
       others = [(''agent'', [1, 2]), (''extra'', [3])] \<rparr>"

definition demo_flatten_state_dict :: "(string \<times> real list) list \<Rightarrow> error + real list" where
  "demo_flatten_state_dict items = Inr (concat (map snd items))"

subsection \<open>Flattening the rollout buffers\<close>

text \<open>
  A torch tensor is its shape and its elements in row-major order. \<^verbatim>\<open>Tensor.reshape\<close> keeps
  the elements and replaces the shape, inferring one dimension given as \<open>-1\<close>; it raises
  when the shape does not fit the number of elements.
\<close>

record torch_tensor =
  t_shape :: "nat list"
  t_data :: "real list"

definition numel :: "torch_tensor \<Rightarrow> nat" where
  "numel x = prod_list (t_shape x)"

definition infer_size :: "int list \<Rightarrow> nat \<Rightarrow> error + nat list" where
  "infer_size shape n =
     (if list_ex (\<lambda>d. d < - 1) shape then Inl RuntimeError
      else if 1 < length (filter (\<lambda>d. d = - 1) shape) then Inl RuntimeError
      else
        let newsize = prod_list (map nat (filter (\<lambda>d. 0 \<le> d) shape)) in
        if list_ex (\<lambda>d. d = - 1) shape then
          (if newsize = 0 then Inl RuntimeError
           else if n mod newsize = 0
           then Inr (map (\<lambda>d. if d = - 1 then n div newsize else nat d) shape)
           else Inl RuntimeError)
        else if n = newsize then Inr (map nat shape)
        else Inl RuntimeError)"

definition tensor_reshape :: "int list \<Rightarrow> torch_tensor \<Rightarrow> error + torch_tensor" where
  "tensor_reshape shape x =
     (case infer_size shape (numel x) of
        Inl e \<Rightarrow> Inl e
      | Inr s \<Rightarrow> Inr \<lparr> t_shape = s, t_data = t_data x \<rparr>)"

text \<open>
  \<^verbatim>\<open>x[i]\<close> and \<^verbatim>\<open>x[i, j]\<close> with integers from 0: the index is the list of the integers, and
  each of them selects along the next leading axis.
\<close>

fun tensor_getitem :: "nat list \<Rightarrow> torch_tensor \<Rightarrow> error + torch_tensor" where
  "tensor_getitem [] x = Inr x"
| "tensor_getitem (i # idx) x =
     (case t_shape x of
        [] \<Rightarrow> Inl IndexError
      | d # ds \<Rightarrow>
          if i < d
          then tensor_getitem idx
                 \<lparr> t_shape = ds,
                   t_data = take (prod_list ds) (drop (i * prod_list ds) (t_data x)) \<rparr>
          else Inl IndexError)"

text \<open>
  The class \<^verbatim>\<open>DictArray\<close> of lines 115 to 158: a buffer shape and a dictionary whose values
  are tensors or further \<^verbatim>\<open>DictArray\<close>s.
\<close>

datatype DictArray = DictArray (buffer_shape: "nat list") (data: "(string \<times> entry) list")
  and entry = Tensor torch_tensor | Nested DictArray

text \<open>The attribute \<^verbatim>\<open>shape\<close> of a value of the dictionary.\<close>

fun entry_shape :: "entry \<Rightarrow> nat list" where
  "entry_shape (Tensor x) = t_shape x"
| "entry_shape (Nested d) = buffer_shape d"

text \<open>
  \<^verbatim>\<open>DictArray.reshape\<close>, lines 149 to 158: \<open>reshape_entry\<close> is the right-hand side of the two
  assignments in the loop, \<open>reshape_items\<close> the loop. \<^verbatim>\<open>next\<close> raises on an empty dictionary.
\<close>

fun reshape :: "int list \<Rightarrow> DictArray \<Rightarrow> error + DictArray"
  and reshape_entry :: "int list \<Rightarrow> nat \<Rightarrow> entry \<Rightarrow> error + entry"
  and reshape_items :: "int list \<Rightarrow> nat \<Rightarrow> (string \<times> entry) list \<Rightarrow> error + (string \<times> entry) list"
where
  "reshape shape (DictArray bs items) =
     (case reshape_items shape (length bs) items of
        Inl e \<Rightarrow> Inl e
      | Inr new_dict \<Rightarrow>
          (case new_dict of
             [] \<Rightarrow> Inl StopIteration
           | (k, v) # _ \<Rightarrow> Inr (DictArray (take (length shape) (entry_shape v)) new_dict)))"
| "reshape_entry shape t (Nested d) =
     (case reshape shape d of Inl e \<Rightarrow> Inl e | Inr d' \<Rightarrow> Inr (Nested d'))"
| "reshape_entry shape t (Tensor x) =
     (case tensor_reshape (shape @ map int (drop t (t_shape x))) x of
        Inl e \<Rightarrow> Inl e
      | Inr x' \<Rightarrow> Inr (Tensor x'))"
| "reshape_items shape t [] = Inr []"
| "reshape_items shape t ((k, v) # rest) =
     (case reshape_entry shape t v of
        Inl e \<Rightarrow> Inl e
      | Inr v' \<Rightarrow>
          (case reshape_items shape t rest of
             Inl e \<Rightarrow> Inl e
           | Inr rest' \<Rightarrow> Inr ((k, v') # rest')))"

text \<open>
  \<^verbatim>\<open>DictArray.__getitem__\<close> with an integer index, lines 135 to 137: a plain dictionary of
  the indexed values.
\<close>

datatype py_item = TensorItem torch_tensor | DictItem "(string \<times> py_item) list"

fun getitem :: "nat list \<Rightarrow> DictArray \<Rightarrow> error + py_item"
  and getitem_entry :: "nat list \<Rightarrow> entry \<Rightarrow> error + py_item"
  and getitem_items :: "nat list \<Rightarrow> (string \<times> entry) list \<Rightarrow> error + (string \<times> py_item) list"
where
  "getitem index (DictArray bs items) =
     (case getitem_items index items of Inl e \<Rightarrow> Inl e | Inr d \<Rightarrow> Inr (DictItem d))"
| "getitem_entry index (Nested d) = getitem index d"
| "getitem_entry index (Tensor x) =
     (case tensor_getitem index x of Inl e \<Rightarrow> Inl e | Inr y \<Rightarrow> Inr (TensorItem y))"
| "getitem_items index [] = Inr []"
| "getitem_items index ((k, v) # rest) =
     (case getitem_entry index v of
        Inl e \<Rightarrow> Inl e
      | Inr y \<Rightarrow>
          (case getitem_items index rest of
             Inl e \<Rightarrow> Inl e
           | Inr ys \<Rightarrow> Inr ((k, y) # ys)))"

text \<open>
  The rollout buffers of lines 351 to 356 and 461 to 501, and ``flatten the batch'', lines
  504 to 509; \<open>action_shape\<close> is \<^verbatim>\<open>envs.single_action_space.shape\<close>.
\<close>

record rollout_tensors =
  obs_t :: DictArray
  logprobs_t :: torch_tensor
  actions_t :: torch_tensor
  advantages_t :: torch_tensor
  returns_t :: torch_tensor
  values_t :: torch_tensor

record flat_tensors =
  b_obs_t :: DictArray
  b_logprobs_t :: torch_tensor
  b_actions_t :: torch_tensor
  b_advantages_t :: torch_tensor
  b_returns_t :: torch_tensor
  b_values_t :: torch_tensor

definition flatten_batch :: "nat list \<Rightarrow> rollout_tensors \<Rightarrow> error + flat_tensors" where
  "flatten_batch action_shape r =
     (case reshape [- 1] (obs_t r) of Inl e \<Rightarrow> Inl e | Inr bo \<Rightarrow>
      case tensor_reshape [- 1] (logprobs_t r) of Inl e \<Rightarrow> Inl e | Inr bl \<Rightarrow>
      case tensor_reshape (- 1 # map int action_shape) (actions_t r) of Inl e \<Rightarrow> Inl e | Inr ba \<Rightarrow>
      case tensor_reshape [- 1] (advantages_t r) of Inl e \<Rightarrow> Inl e | Inr bad \<Rightarrow>
      case tensor_reshape [- 1] (returns_t r) of Inl e \<Rightarrow> Inl e | Inr br \<Rightarrow>
      case tensor_reshape [- 1] (values_t r) of Inl e \<Rightarrow> Inl e | Inr bv \<Rightarrow>
      Inr \<lparr> b_obs_t = bo, b_logprobs_t = bl, b_actions_t = ba,
            b_advantages_t = bad, b_returns_t = br, b_values_t = bv \<rparr>)"

text \<open>
  For the statements: a buffer over the leading axes \<open>bs\<close>, as the constructor of lines 116
  to 127 allocates it for a non-empty observation space with non-empty boxes: every tensor
  has the leading axes \<open>bs\<close> and positive further axes, every dictionary has items.
\<close>

definition tensor_ok :: "nat list \<Rightarrow> torch_tensor \<Rightarrow> bool" where
  "tensor_ok bs x \<longleftrightarrow>
     take (length bs) (t_shape x) = bs \<and> list_all (\<lambda>d. 0 < d) (drop (length bs) (t_shape x))"

fun buffer_ok :: "nat list \<Rightarrow> DictArray \<Rightarrow> bool"
  and entry_ok :: "nat list \<Rightarrow> entry \<Rightarrow> bool"
  and items_ok :: "nat list \<Rightarrow> (string \<times> entry) list \<Rightarrow> bool"
where
  "buffer_ok bs (DictArray bs' items) \<longleftrightarrow> bs' = bs \<and> items \<noteq> [] \<and> items_ok bs items"
| "entry_ok bs (Nested d) \<longleftrightarrow> buffer_ok bs d"
| "entry_ok bs (Tensor x) \<longleftrightarrow> tensor_ok bs x"
| "items_ok bs [] \<longleftrightarrow> True"
| "items_ok bs ((k, v) # rest) \<longleftrightarrow> entry_ok bs v \<and> items_ok bs rest"

text \<open>
  The entry of step \<open>t\<close> and environment \<open>e\<close> of a buffer is the entry \<open>i\<close> of its flattened
  form.
\<close>

definition same_entry :: "torch_tensor \<Rightarrow> nat \<Rightarrow> nat \<Rightarrow> torch_tensor \<Rightarrow> nat \<Rightarrow> bool" where
  "same_entry x t e b i \<longleftrightarrow>
     (case tensor_getitem [t, e] x of
        Inl _ \<Rightarrow> False
      | Inr v \<Rightarrow> tensor_getitem [i] b = Inr v)"

definition same_obs :: "DictArray \<Rightarrow> nat \<Rightarrow> nat \<Rightarrow> DictArray \<Rightarrow> nat \<Rightarrow> bool" where
  "same_obs d t e b i \<longleftrightarrow>
     (case getitem [t, e] d of
        Inl _ \<Rightarrow> False
      | Inr v \<Rightarrow> getitem [i] b = Inr v)"

text \<open>Buffers of two steps and three environments, numbered by step and environment.\<close>

definition demo_tensor :: "nat list \<Rightarrow> real list \<Rightarrow> torch_tensor" where
  "demo_tensor sh xs = \<lparr> t_shape = sh, t_data = xs \<rparr>"

definition demo_tensors :: rollout_tensors where
  "demo_tensors =
     \<lparr> obs_t = DictArray [2, 3]
         [(''state'', Tensor (demo_tensor [2, 3, 2]
             [100, 101, 110, 111, 120, 121, 200, 201, 210, 211, 220, 221])),
          (''rgb'', Tensor (demo_tensor [2, 3, 1, 1, 3]
             [10, 10, 10, 11, 11, 11, 12, 12, 12, 20, 20, 20, 21, 21, 21, 22, 22, 22]))],
       logprobs_t = demo_tensor [2, 3] [- 10, - 11, - 12, - 20, - 21, - 22],
       actions_t = demo_tensor [2, 3, 2]
         [10, 0, 11, 0, 12, 0, 20, 0, 21, 0, 22, 0],
       advantages_t = demo_tensor [2, 3] [310, 311, 312, 320, 321, 322],
       returns_t = demo_tensor [2, 3] [410, 411, 412, 420, 421, 422],
       values_t = demo_tensor [2, 3] [510, 511, 512, 520, 521, 522] \<rparr>"

section \<open>Theorems\<close>

subsection \<open>Helper facts on lists of reals\<close>

lemma map2_diff_self: "map2 (-) (ys :: real list) ys = replicate (length ys) 0"
  by (induction ys) simp_all

lemma sum_list_replicate_zero: "sum_list (replicate n (0::real)) = 0"
  by (induction n) simp_all

lemma mean_replicate_zero: "mean (replicate n 0) = 0"
  by (simp add: mean_def sum_list_replicate_zero)

lemma var_replicate_zero: "var (replicate n 0) = 0"
  by (simp add: var_def mean_replicate_zero)

lemma map2_same_ratio:
  "length as = length rs \<Longrightarrow> \<forall>r \<in> set rs. r = c \<Longrightarrow> map2 f as rs = map (\<lambda>a. f a c) as"
  by (induction as rs rule: list_induct2) simp_all

lemma map2_max_self: "map2 max (xs :: real list) xs = xs"
  by (induction xs) simp_all

lemma sum_list_uminus: "sum_list (map uminus (xs :: real list)) = - sum_list xs"
  by (induction xs) simp_all

lemma mean_uminus: "mean (map uminus xs) = - mean xs"
  by (simp add: mean_def sum_list_uminus)

lemma map_const_zero: "\<forall>r \<in> set rs. g r = (0::real) \<Longrightarrow> map g rs = replicate (length rs) 0"
  by (induction rs) simp_all

subsection \<open>Clip fraction and policy loss at ratio one\<close>

text \<open>
  Claim C7. Take a non-empty minibatch in which every probability ratio
  \<open>exp (new_logp - old_logp)\<close> is exactly 1, with a clip coefficient that is not negative
  and advantage normalisation switched off. Then the clip fraction recorded for the
  minibatch is 0 and the clipped surrogate policy loss is minus the mean advantage.
\<close>

theorem clipfrac_pg_loss_ratio_one:
  assumes "rs = ratio (logratio newlogprob old_logprobs)"
    and "\<forall>r \<in> set rs. r = 1"
    and "length mb_advantages = length rs"
    and "rs \<noteq> []"
    and "0 \<le> clip_coef args"
    and "\<not> norm_adv args"
  shows "clipfrac args rs = 0 \<and> pg_loss args mb_advantages rs = - mean mb_advantages"
proof
  have "map (\<lambda>r. if \<bar>r - 1\<bar> > clip_coef args then 1 else (0::real)) rs
        = replicate (length rs) 0"
    using assms(2,5) by (intro map_const_zero) auto
  then show "clipfrac args rs = 0"
    by (simp add: clipfrac_def mean_replicate_zero)
next
  have c: "clamp 1 (1 - clip_coef args) (1 + clip_coef args) = 1"
    using assms(5) by (simp add: clamp_def)
  have l1: "map2 (\<lambda>a r. - a * r) mb_advantages rs = map uminus mb_advantages"
    using map2_same_ratio [OF assms(3,2), of "\<lambda>a r. - a * r"] by simp
  have l2: "map2 (\<lambda>a r. - a * clamp r (1 - clip_coef args) (1 + clip_coef args))
              mb_advantages rs = map uminus mb_advantages"
    using map2_same_ratio [OF assms(3,2),
        of "\<lambda>a r. - a * clamp r (1 - clip_coef args) (1 + clip_coef args)"] c
    by simp
  show "pg_loss args mb_advantages rs = - mean mb_advantages"
    unfolding pg_loss_def normalize_advantages_def Let_def using assms(6)
    by (simp only: if_False l1 l2 map2_max_self mean_uminus)
qed

theorem clipfrac_pg_loss_ratio_one_witness:
  "ratio (logratio [-1, -2] [-1, -2]) = [1, 1] \<and>
   clipfrac default_args [1, 1] = 0 \<and>
   pg_loss default_args [1, 3] [1, 1] = - mean [1, 3] \<and> mean [1, 3] = 2"
  using clipfrac_pg_loss_ratio_one [of "[1, 1]" "[-1, -2]" "[-1, -2]" "[1, 3]" default_args]
  by (simp add: ratio_def logratio_def default_args_def mean_def)

subsection \<open>Explained variance\<close>

text \<open>
  Claim C8. When the stored value predictions equal the returns and the variance of the
  returns is not zero, the explained variance is exactly 1; when the variance of the
  returns is zero, the metric is the not-a-number sentinel, a value and not an exception.
\<close>

theorem explained_var_one_or_nan:
  "(y_pred = y_true \<and> var y_true \<noteq> 0 \<longrightarrow> explained_var y_pred y_true = Finite 1) \<and>
   (var y_true = 0 \<longrightarrow> explained_var y_pred y_true = NaN)"
  by (simp add: explained_var_def Let_def map2_diff_self var_replicate_zero)

theorem explained_var_one_or_nan_witness:
  "var [1, 3] = 1 \<and> explained_var [1, 3] [1, 3] = Finite 1 \<and>
   var [2, 2] = 0 \<and> explained_var [5, 7] [2, 2] = NaN"
  using explained_var_one_or_nan [of "[1, 3]" "[1, 3]"]
    explained_var_one_or_nan [of "[5, 7]" "[2, 2]"]
  by (simp add: var_def mean_def)

subsection \<open>The backward loop of the advantage estimation\<close>

lemma gae_loop_snoc:
  "gae_loop args ro lo (Suc n) s = gae_body args ro lo (gae_loop args ro (Suc lo) n s)"
proof (induction n arbitrary: s)
  case 0
  show ?case by simp
next
  case (Suc n)
  have "gae_loop args ro lo (Suc (Suc n)) s
        = gae_loop args ro lo (Suc n) (gae_body args ro (lo + Suc n) s)"
    by simp
  also have "\<dots> = gae_body args ro lo
                     (gae_loop args ro (Suc lo) n (gae_body args ro (lo + Suc n) s))"
    by (rule Suc.IH)
  also have "gae_loop args ro (Suc lo) n (gae_body args ro (lo + Suc n) s)
             = gae_loop args ro (Suc lo) (Suc n) s"
    by simp
  finally show ?case .
qed

lemma gae_loop_add:
  "gae_loop args ro lo (n + m) s = gae_loop args ro lo n (gae_loop args ro (lo + n) m s)"
proof (induction m arbitrary: s)
  case 0
  show ?case by simp
next
  case (Suc m)
  have "gae_loop args ro lo (n + Suc m) s
        = gae_loop args ro lo (n + m) (gae_body args ro (lo + (n + m)) s)"
    by simp
  also have "\<dots> = gae_loop args ro lo n
                     (gae_loop args ro (lo + n) m (gae_body args ro (lo + (n + m)) s))"
    by (rule Suc.IH)
  finally show ?case by (simp add: add.assoc)
qed

lemma gae_after_step:
  assumes "t < num_steps args"
  shows "gae_after args ro t = gae_body args ro t (gae_after args ro (Suc t))"
proof -
  have "num_steps args - t = Suc (num_steps args - Suc t)"
    using assms by simp
  then show ?thesis
    unfolding gae_after_def by (simp only: gae_loop_snoc)
qed

lemma length_advantages_gae_body:
  "length (advantages (gae_body args ro t s)) = length (advantages s)"
  by (simp add: gae_body_def Let_def)

lemma advantages_gae_body_other:
  "t' \<noteq> t \<Longrightarrow> advantages (gae_body args ro t s) ! t' = advantages s ! t'"
  by (simp add: gae_body_def Let_def)

lemma length_advantages_gae_loop:
  "length (advantages (gae_loop args ro lo n s)) = length (advantages s)"
  by (induction n arbitrary: s) (simp_all add: length_advantages_gae_body)

lemma advantages_gae_loop_above:
  "lo + n \<le> t' \<Longrightarrow> advantages (gae_loop args ro lo n s) ! t' = advantages s ! t'"
  by (induction n arbitrary: s) (simp_all add: advantages_gae_body_other)

lemma advantages_final:
  assumes "t \<le> num_steps args"
  shows "compute_advantages args ro ! t = advantages (gae_after args ro t) ! t"
proof -
  have "gae_after args ro 0
        = gae_loop args ro 0 t (gae_loop args ro (0 + t) (num_steps args - t) (gae_init args ro))"
    using assms gae_loop_add [of args ro 0 t "num_steps args - t"]
    by (simp add: gae_after_def)
  then show ?thesis
    by (simp add: compute_advantages_def gae_after_def advantages_gae_loop_above)
qed

lemma length_compute_advantages:
  "length (compute_advantages args ro) = length (rewards ro)"
  by (simp add: compute_advantages_def gae_after_def length_advantages_gae_loop gae_init_def)

subsection \<open>Shapes\<close>

lemma shape_okD:
  "shape_ok args rows \<Longrightarrow> t < num_steps args \<Longrightarrow> length (rows ! t) = num_envs args"
  by (simp add: shape_ok_def list_all_length)

lemma wf_rollout_rows:
  assumes "wf_rollout args ro" "t < num_steps args"
  shows "length (rewards ro ! t) = num_envs args"
    and "length (dones ro ! t) = num_envs args"
    and "length (values_buf ro ! t) = num_envs args"
    and "length (final_values ro ! t) = num_envs args"
  using assms by (simp_all add: wf_rollout_def shape_okD)

lemma length_next_not_done:
  "wf_rollout args ro \<Longrightarrow> t < num_steps args
   \<Longrightarrow> length (next_not_done args ro t) = num_envs args"
  by (auto simp: next_not_done_def wf_rollout_def intro: shape_okD)

lemma length_nextvalues:
  "wf_rollout args ro \<Longrightarrow> t < num_steps args
   \<Longrightarrow> length (nextvalues args ro t) = num_envs args"
  by (auto simp: nextvalues_def wf_rollout_def intro: shape_okD)

lemma length_real_next_values:
  "wf_rollout args ro \<Longrightarrow> t < num_steps args
   \<Longrightarrow> length (real_next_values args ro t) = num_envs args"
  by (simp add: real_next_values_def vadd_def vmul_def length_next_not_done length_nextvalues
      wf_rollout_rows)

lemma real_next_values_nth:
  assumes "wf_rollout args ro" "t < num_steps args" "e < num_envs args"
  shows "real_next_values args ro t ! e
         = next_not_done args ro t ! e * nextvalues args ro t ! e + final_values ro ! t ! e"
proof -
  have "length (final_values ro ! t) = num_envs args"
    using assms by (simp add: wf_rollout_rows)
  then show ?thesis
    using assms
    by (simp add: real_next_values_def vadd_def vmul_def length_next_not_done length_nextvalues)
qed

lemma next_not_done_done_after:
  assumes "wf_rollout args ro" "t < num_steps args" "e < num_envs args"
  shows "next_not_done args ro t ! e = 1 - done_after args ro t ! e"
proof (cases "Suc t = num_steps args")
  case True
  then show ?thesis
    using assms by (simp add: next_not_done_def done_after_def wf_rollout_def)
next
  case False
  then have "length (dones ro ! (t + 1)) = num_envs args"
    using assms by (simp add: wf_rollout_rows)
  then show ?thesis
    using False assms by (simp add: next_not_done_def done_after_def)
qed

lemma done_after_flag:
  assumes "wf_rollout args ro" "flags_ok ro" "t < num_steps args" "e < num_envs args"
  shows "done_after args ro t ! e = 0 \<or> done_after args ro t ! e = 1"
proof (cases "Suc t = num_steps args")
  case True
  then show ?thesis
    using assms by (simp add: done_after_def flags_ok_def wf_rollout_def list_all_length)
next
  case False
  then have "Suc t < length (dones ro)" "e < length (dones ro ! Suc t)"
    using assms by (simp_all add: wf_rollout_def shape_ok_def list_all_length)
  then show ?thesis
    using False assms(2) by (simp add: done_after_def flags_ok_def list_all_length)
qed

lemma bootstrap_sparseD:
  assumes "wf_rollout args ro" "bootstrap_sparse args ro" "t < num_steps args"
    "e < num_envs args"
  shows "final_values ro ! t ! e = 0 \<or> done_after args ro t ! e = 1"
proof -
  have l1: "length (final_values ro ! t) = num_envs args"
    using assms by (simp add: wf_rollout_rows)
  have l2: "length (done_after args ro t) = num_envs args"
    using assms by (auto simp: done_after_def wf_rollout_rows) (simp add: wf_rollout_def)
  have "list_all (\<lambda>(fv, d). fv = 0 \<or> d = 1)
          (zip (final_values ro ! t) (done_after args ro t))"
    using assms(2,3) by (simp add: bootstrap_sparse_def list_all_length)
  then show ?thesis
    using l1 l2 assms(4) by (simp add: list_all_length)
qed

text \<open>
  The value the third sum discounts: the next step's value estimate while the episode
  goes on, the bootstrap value stored for step \<open>t\<close> where it ended.
\<close>

lemma real_next_values_cases:
  assumes "wf_rollout args ro" "flags_ok ro" "bootstrap_sparse args ro"
    "t < num_steps args" "e < num_envs args"
  shows "real_next_values args ro t ! e
         = (if next_not_done args ro t ! e = 1 then nextvalues args ro t ! e
            else final_values ro ! t ! e)"
    and "next_not_done args ro t ! e = 0 \<or> next_not_done args ro t ! e = 1"
  using real_next_values_nth [OF assms(1,4,5)] next_not_done_done_after [OF assms(1,4,5)]
    done_after_flag [OF assms(1,2,4,5)] bootstrap_sparseD [OF assms(1,3,4,5)]
  by auto

subsection \<open>The three sums of the finite-horizon estimator\<close>

lemma gae_body_finite_lengths:
  assumes "finite_horizon_gae args" "wf_rollout args ro" "t < num_steps args"
    and "Suc t = num_steps args \<or>
           length (lam_coef_sum s) = num_envs args \<and> length (reward_term_sum s) = num_envs args \<and>
           length (value_term_sum s) = num_envs args"
  shows "length (lam_coef_sum (gae_body args ro t s)) = num_envs args \<and>
         length (reward_term_sum (gae_body args ro t s)) = num_envs args \<and>
         length (value_term_sum (gae_body args ro t s)) = num_envs args"
  using assms
  by (auto simp add: gae_body_def Let_def vadd_def vmul_def smul_def length_next_not_done
      length_real_next_values wf_rollout_rows)

lemma gae_after_lengths:
  assumes "finite_horizon_gae args" "wf_rollout args ro" "t < num_steps args"
  shows "length (lam_coef_sum (gae_after args ro t)) = num_envs args \<and>
         length (reward_term_sum (gae_after args ro t)) = num_envs args \<and>
         length (value_term_sum (gae_after args ro t)) = num_envs args"
  using assms(3)
proof (induction "num_steps args - Suc t" arbitrary: t)
  case 0
  then have "Suc t = num_steps args" by simp
  then show ?case
    using gae_body_finite_lengths [OF assms(1,2) "0.prems", of "gae_after args ro (Suc t)"]
    by (simp add: gae_after_step [OF "0.prems"])
next
  case (Suc k)
  then have "k = num_steps args - Suc (Suc t)" "Suc t < num_steps args" by simp_all
  then have "length (lam_coef_sum (gae_after args ro (Suc t))) = num_envs args \<and>
         length (reward_term_sum (gae_after args ro (Suc t))) = num_envs args \<and>
         length (value_term_sum (gae_after args ro (Suc t))) = num_envs args"
    by (rule Suc.hyps(1))
  then show ?case
    using gae_body_finite_lengths [OF assms(1,2) Suc.prems, of "gae_after args ro (Suc t)"]
    by (simp add: gae_after_step [OF Suc.prems])
qed

lemma gae_body_finite_nth:
  assumes "finite_horizon_gae args" "wf_rollout args ro" "t < num_steps args"
    "e < num_envs args"
    and "Suc t = num_steps args \<or>
           length (lam_coef_sum s) = num_envs args \<and> length (reward_term_sum s) = num_envs args \<and>
           length (value_term_sum s) = num_envs args"
  defines "nnd \<equiv> next_not_done args ro t ! e"
    and "C' \<equiv> (if Suc t = num_steps args then 0 else lam_coef_sum s ! e)"
    and "R' \<equiv> (if Suc t = num_steps args then 0 else reward_term_sum s ! e)"
    and "V' \<equiv> (if Suc t = num_steps args then 0 else value_term_sum s ! e)"
    and "C \<equiv> lam_coef_sum (gae_body args ro t s) ! e"
    and "R \<equiv> reward_term_sum (gae_body args ro t s) ! e"
    and "V \<equiv> value_term_sum (gae_body args ro t s) ! e"
  shows "C = 1 + gae_lambda args * C' * nnd"
    and "R = gae_lambda args * gamma args * R' * nnd + C * rewards ro ! t ! e"
    and "V = gae_lambda args * gamma args * V' * nnd + gamma args * real_next_values args ro t ! e"
    and "t < length (advantages s) \<Longrightarrow>
         advantages (gae_body args ro t s) ! t ! e = (R + V) / C - values_buf ro ! t ! e"
  using assms(1-5) unfolding nnd_def C'_def R'_def V'_def C_def R_def V_def
  by (auto simp add: gae_body_def Let_def vadd_def vmul_def smul_def vsub_def vdiv_def
      length_next_not_done length_real_next_values wf_rollout_rows)

lemma length_advantage_row:
  assumes "wf_rollout args ro" "t < num_steps args" "t < length (advantages s)"
    and "Suc t = num_steps args \<or>
           length (lam_coef_sum s) = num_envs args \<and> length (reward_term_sum s) = num_envs args \<and>
           length (value_term_sum s) = num_envs args"
    and "finite_horizon_gae args \<or> length (lastgaelam s) = num_envs args"
  shows "length (advantages (gae_body args ro t s) ! t) = num_envs args"
  using assms
  by (auto simp add: gae_body_def Let_def vadd_def vmul_def smul_def vsub_def vdiv_def
      length_next_not_done length_real_next_values wf_rollout_rows)

lemma gae_after_coef_ge_one:
  assumes "finite_horizon_gae args" "wf_rollout args ro" "flags_ok ro"
    "0 \<le> gae_lambda args" "e < num_envs args" "t < num_steps args"
  shows "1 \<le> lam_coef_sum (gae_after args ro t) ! e"
  using assms(6)
proof (induction "num_steps args - Suc t" arbitrary: t)
  case 0
  then have "Suc t = num_steps args" by simp
  then show ?case
    using gae_body_finite_nth(1) [OF assms(1,2) "0.prems" assms(5), of "gae_after args ro (Suc t)"]
    by (simp add: gae_after_step [OF "0.prems"])
next
  case (Suc k)
  then have k: "k = num_steps args - Suc (Suc t)" and lt: "Suc t < num_steps args" by simp_all
  have prev: "1 \<le> lam_coef_sum (gae_after args ro (Suc t)) ! e"
    using k lt by (rule Suc.hyps(1))
  have nnd: "0 \<le> next_not_done args ro t ! e"
    using next_not_done_done_after [OF assms(2) Suc.prems assms(5)]
      done_after_flag [OF assms(2,3) Suc.prems assms(5)] by auto
  have "lam_coef_sum (gae_after args ro t) ! e
        = 1 + gae_lambda args * lam_coef_sum (gae_after args ro (Suc t)) ! e
              * next_not_done args ro t ! e"
    using gae_body_finite_nth(1) [OF assms(1,2) Suc.prems assms(5), of "gae_after args ro (Suc t)"]
      gae_after_lengths [OF assms(1,2) lt] lt
    by (simp add: gae_after_step [OF Suc.prems])
  moreover have "0 \<le> gae_lambda args * lam_coef_sum (gae_after args ro (Suc t)) ! e
              * next_not_done args ro t ! e"
    using assms(4) prev nnd by simp
  ultimately show ?case by simp
qed

lemma nextvalues_nth:
  "nextvalues args ro t ! e
   = (if Suc t = num_steps args then next_value ro ! e else values_buf ro ! Suc t ! e)"
  by (simp add: nextvalues_def)

lemma done_after_nth:
  "done_after args ro t ! e
   = (if Suc t = num_steps args then next_done ro ! e else dones ro ! Suc t ! e)"
  by (simp add: done_after_def)

text \<open>
  Claim C1. In finite-horizon mode, on a rollout as the collector leaves it (buffers of
  shape \<open>num_steps \<times> num_envs\<close>, done flags 0 or 1, bootstrap values zero where the
  episode went on) and with \<open>0 \<le> \<lambda>\<close>, the pass of the backward loop for step \<open>t\<close> and
  environment \<open>e\<close> leaves \<open>C = 1 + \<lambda> C' n\<close>, \<open>R = \<lambda> \<gamma> R' n + C r\<^sub>t\<close> and
  \<open>V = \<lambda> \<gamma> V' n + \<gamma> b\<close>. Here \<open>n\<close> is 1 minus the done flag after step \<open>t\<close>, which is
  \<^verbatim>\<open>dones[t + 1]\<close> or, at the last step, \<^verbatim>\<open>next_done\<close>; the primed sums are those of the pass
  before (0 at the first pass, \<open>t = num_steps - 1\<close>); and \<open>b\<close> is the value estimate of the
  next step, \<^verbatim>\<open>values[t + 1]\<close> or, at the last step, \<^verbatim>\<open>next_value\<close>, when \<open>n = 1\<close>, and the
  bootstrap value \<^verbatim>\<open>final_values[t]\<close> otherwise. The divisor \<open>C\<close> is at least 1, the
  advantage the loop returns for \<open>(t, e)\<close> is \<open>(R + V) / C - values[t]\<close>, and the return
  is advantage plus value.
\<close>

theorem finite_horizon_gae_recurrence:
  assumes "finite_horizon_gae args" "wf_rollout args ro" "flags_ok ro"
    "bootstrap_sparse args ro" "0 \<le> gae_lambda args"
    "t < num_steps args" "e < num_envs args"
  defines "nnd \<equiv> 1 - (if Suc t = num_steps args then next_done ro ! e
                       else dones ro ! Suc t ! e)"
    and "next_val \<equiv> (if Suc t = num_steps args then next_value ro ! e
                       else values_buf ro ! Suc t ! e)"
    and "C' \<equiv> (if Suc t = num_steps args then 0 else lam_coef_sum (gae_after args ro (Suc t)) ! e)"
    and "R' \<equiv> (if Suc t = num_steps args then 0
                else reward_term_sum (gae_after args ro (Suc t)) ! e)"
    and "V' \<equiv> (if Suc t = num_steps args then 0
                else value_term_sum (gae_after args ro (Suc t)) ! e)"
    and "C \<equiv> lam_coef_sum (gae_after args ro t) ! e"
    and "R \<equiv> reward_term_sum (gae_after args ro t) ! e"
    and "V \<equiv> value_term_sum (gae_after args ro t) ! e"
  shows "C = 1 + gae_lambda args * C' * nnd \<and>
         R = gae_lambda args * gamma args * R' * nnd + C * rewards ro ! t ! e \<and>
         V = gae_lambda args * gamma args * V' * nnd
             + gamma args * (if nnd = 1 then next_val else final_values ro ! t ! e) \<and>
         (nnd = 0 \<or> nnd = 1) \<and> 1 \<le> C \<and>
         compute_advantages args ro ! t ! e = (R + V) / C - values_buf ro ! t ! e \<and>
         compute_returns args ro ! t ! e
           = compute_advantages args ro ! t ! e + values_buf ro ! t ! e"
proof -
  let ?s = "gae_after args ro (Suc t)"
  have step: "gae_after args ro t = gae_body args ro t ?s"
    by (rule gae_after_step [OF assms(6)])
  have lens: "Suc t = num_steps args \<or>
       length (lam_coef_sum ?s) = num_envs args \<and> length (reward_term_sum ?s) = num_envs args \<and>
       length (value_term_sum ?s) = num_envs args"
    using gae_after_lengths [OF assms(1,2), of "Suc t"] assms(6) by (cases "Suc t = num_steps args") simp_all
  have la: "t < length (advantages ?s)"
    using assms(2,6)
    by (simp add: gae_after_def length_advantages_gae_loop gae_init_def wf_rollout_def shape_ok_def)
  have nn: "next_not_done args ro t ! e = nnd"
    unfolding nnd_def
    using next_not_done_done_after [OF assms(2,6,7)] by (simp add: done_after_nth)
  have nv: "nextvalues args ro t ! e = next_val"
    unfolding next_val_def by (rule nextvalues_nth)
  note body = gae_body_finite_nth [OF assms(1,2,6,7) lens]
  have c: "C = 1 + gae_lambda args * C' * nnd"
    unfolding C_def C'_def nn [symmetric] step by (rule body(1))
  have r: "R = gae_lambda args * gamma args * R' * nnd + C * rewards ro ! t ! e"
    unfolding C_def R_def R'_def nn [symmetric] step by (rule body(2))
  have v: "V = gae_lambda args * gamma args * V' * nnd
             + gamma args * (if nnd = 1 then next_val else final_values ro ! t ! e)"
    unfolding V_def V'_def nn [symmetric] nv [symmetric] step
    using body(3) real_next_values_cases(1) [OF assms(2,3,4,6,7)] by simp
  have n: "nnd = 0 \<or> nnd = 1"
    unfolding nn [symmetric] by (rule real_next_values_cases(2) [OF assms(2,3,4,6,7)])
  have g: "1 \<le> C"
    unfolding C_def by (rule gae_after_coef_ge_one [OF assms(1,2,3,5,7,6)])
  have a: "compute_advantages args ro ! t ! e = (R + V) / C - values_buf ro ! t ! e"
    unfolding C_def R_def V_def step
    using body(4) [OF la] advantages_final [of t args ro] assms(6) by (simp add: step)
  have lrow: "length (compute_advantages args ro ! t) = num_envs args"
    using length_advantage_row [OF assms(2,6) la lens] assms(1,6) advantages_final [of t args ro]
    by (simp add: step)
  have lv: "length (values_buf ro) = num_steps args" "length (rewards ro) = num_steps args"
    using assms(2) by (simp_all add: wf_rollout_def shape_ok_def)
  have ret: "compute_returns args ro ! t ! e
           = compute_advantages args ro ! t ! e + values_buf ro ! t ! e"
    using assms(6,7) lrow lv wf_rollout_rows(3) [OF assms(2,6)]
    by (simp add: compute_returns_def length_compute_advantages vadd_def)
  from c r v n g a ret show ?thesis by blast
qed

lemmas gae_eval = gae_after_def gae_init_def gae_body_def next_not_done_def nextvalues_def
  real_next_values_def vadd_def vsub_def vmul_def vdiv_def smul_def Let_def
  compute_advantages_def compute_returns_def wf_rollout_def shape_ok_def flags_ok_def
  bootstrap_sparse_def done_after_def default_args_def

theorem finite_horizon_gae_recurrence_witness:
  "finite_horizon_gae boundary_args \<and> wf_rollout boundary_args boundary_rollout \<and>
   flags_ok boundary_rollout \<and> bootstrap_sparse boundary_args boundary_rollout \<and>
   next_value boundary_rollout ! 0 = 10 \<and>
   lam_coef_sum (gae_after boundary_args boundary_rollout 3) ! 0 = 1 \<and>
   reward_term_sum (gae_after boundary_args boundary_rollout 3) ! 0 = 1 \<and>
   value_term_sum (gae_after boundary_args boundary_rollout 3) ! 0 = 1 / 2 * 10 \<and>
   compute_advantages boundary_args boundary_rollout ! 3 ! 0 = (1 + 5) / 1 - 8 \<and>
   dones boundary_rollout ! 3 ! 0 = 1 \<and> final_values boundary_rollout ! 2 ! 0 = 5 \<and>
   lam_coef_sum (gae_after boundary_args boundary_rollout 2) ! 0 = 1 \<and>
   reward_term_sum (gae_after boundary_args boundary_rollout 2) ! 0 = 1 \<and>
   value_term_sum (gae_after boundary_args boundary_rollout 2) ! 0 = 1 / 2 * 5 \<and>
   compute_advantages boundary_args boundary_rollout ! 2 ! 0 = (1 + 5 / 2) / 1 - 6 \<and>
   compute_returns boundary_args boundary_rollout ! 2 ! 0 = 7 / 2 \<and>
   dones boundary_rollout ! 2 ! 0 = 0 \<and> values_buf boundary_rollout ! 2 ! 0 = 6 \<and>
   lam_coef_sum (gae_after boundary_args boundary_rollout 1) ! 0 = 1 + 1 / 2 * 1 * 1 \<and>
   reward_term_sum (gae_after boundary_args boundary_rollout 1) ! 0
     = 1 / 2 * (1 / 2) * 1 * 1 + 3 / 2 * 1 \<and>
   value_term_sum (gae_after boundary_args boundary_rollout 1) ! 0
     = 1 / 2 * (1 / 2) * (5 / 2) * 1 + 1 / 2 * 6 \<and>
   compute_advantages boundary_args boundary_rollout ! 1 ! 0 = (7 / 4 + 29 / 8) / (3 / 2) - 4"
  using finite_horizon_gae_recurrence [of boundary_args boundary_rollout 3 0]
    finite_horizon_gae_recurrence [of boundary_args boundary_rollout 2 0]
    finite_horizon_gae_recurrence [of boundary_args boundary_rollout 1 0]
  by (simp add: gae_eval boundary_args_def boundary_rollout_def eval_nat_numeral upt_rec)

subsection \<open>The two estimators compared\<close>

lemma gae_body_standard_nth:
  assumes "\<not> finite_horizon_gae args" "wf_rollout args ro" "t < num_steps args"
    "e < num_envs args" "length (lastgaelam s) = num_envs args" "t < length (advantages s)"
  shows "advantages (gae_body args ro t s) ! t ! e
         = rewards ro ! t ! e + gamma args * real_next_values args ro t ! e
           - values_buf ro ! t ! e
           + gamma args * gae_lambda args * next_not_done args ro t ! e * lastgaelam s ! e"
    and "length (lastgaelam (gae_body args ro t s)) = num_envs args"
  using assms
  by (simp_all add: gae_body_def Let_def vadd_def vmul_def smul_def vsub_def
      length_next_not_done length_real_next_values wf_rollout_rows)

lemma gae_after_lastgaelam_length:
  assumes "\<not> finite_horizon_gae args" "wf_rollout args ro" "t \<le> num_steps args"
  shows "length (lastgaelam (gae_after args ro t)) = num_envs args"
  using assms(3)
proof (induction "num_steps args - t" arbitrary: t)
  case 0
  then have "t = num_steps args" by simp
  then show ?case by (simp add: gae_after_def gae_init_def)
next
  case (Suc k)
  then have k: "k = num_steps args - Suc t" and lt: "t < num_steps args" by simp_all
  then have le: "Suc t \<le> num_steps args" by simp
  have prev: "length (lastgaelam (gae_after args ro (Suc t))) = num_envs args"
    using k le by (rule Suc.hyps(1))
  have la: "t < length (advantages (gae_after args ro (Suc t)))"
    using assms(2) lt
    by (simp add: gae_after_def length_advantages_gae_loop gae_init_def wf_rollout_def shape_ok_def)
  show ?case
    unfolding gae_after_step [OF lt]
    using assms(1,2) lt prev
    by (simp add: gae_body_def Let_def vadd_def vmul_def smul_def vsub_def
      length_next_not_done length_real_next_values wf_rollout_rows)
qed

lemma wf_rollout_flag [simp]:
  "wf_rollout (args \<lparr> finite_horizon_gae := b \<rparr>) ro = wf_rollout args ro"
  by (simp add: wf_rollout_def shape_ok_def)

lemma real_next_values_flag [simp]:
  "real_next_values (args \<lparr> finite_horizon_gae := b \<rparr>) ro t = real_next_values args ro t"
  by (simp add: real_next_values_def next_not_done_def nextvalues_def)

lemma next_not_done_flag [simp]:
  "next_not_done (args \<lparr> finite_horizon_gae := b \<rparr>) ro t = next_not_done args ro t"
  by (simp add: next_not_done_def)

text \<open>
  Claim C2, as amended. On a rollout in which no episode ends, the finite-horizon branch
  and the standard recursion give the same advantage at the last step
  \<open>t = num_steps - 1\<close> of every environment, and at every step when \<open>\<lambda> = 0\<close>: there
  both are \<open>r\<^sub>t + \<gamma> v - values[t]\<close> with \<open>v\<close> the value after the step.
\<close>

theorem gae_branches_agree_last_step_or_lambda_zero:
  assumes "wf_rollout args ro" "no_episode_end ro" "t < num_steps args" "e < num_envs args"
    and "Suc t = num_steps args \<or> gae_lambda args = 0"
  shows "compute_advantages (args \<lparr> finite_horizon_gae := True \<rparr>) ro ! t ! e
         = compute_advantages (args \<lparr> finite_horizon_gae := False \<rparr>) ro ! t ! e"
proof -
  let ?f = "args \<lparr> finite_horizon_gae := True \<rparr>"
  let ?s = "args \<lparr> finite_horizon_gae := False \<rparr>"
  have wf: "wf_rollout ?f ro" "wf_rollout ?s ro" using assms(1) by simp_all
  have t: "t < num_steps ?f" "t < num_steps ?s" using assms(3) by simp_all
  have e: "e < num_envs ?f" "e < num_envs ?s" using assms(4) by simp_all
  have fh: "finite_horizon_gae ?f" "\<not> finite_horizon_gae ?s" by simp_all
  have lens: "Suc t = num_steps ?f \<or>
       length (lam_coef_sum (gae_after ?f ro (Suc t))) = num_envs ?f \<and>
       length (reward_term_sum (gae_after ?f ro (Suc t))) = num_envs ?f \<and>
       length (value_term_sum (gae_after ?f ro (Suc t))) = num_envs ?f"
    using gae_after_lengths [OF fh(1) wf(1), of "Suc t"] assms(3)
    by (cases "Suc t = num_steps args") simp_all
  have laf: "t < length (advantages (gae_after ?f ro (Suc t)))"
    and las: "t < length (advantages (gae_after ?s ro (Suc t)))"
    using assms(1,3)
    by (simp_all add: gae_after_def length_advantages_gae_loop gae_init_def wf_rollout_def
        shape_ok_def)
  have ll: "length (lastgaelam (gae_after ?s ro (Suc t))) = num_envs ?s"
    using gae_after_lastgaelam_length [OF fh(2) wf(2), of "Suc t"] assms(3) by simp
  note fb = gae_body_finite_nth [OF fh(1) wf(1) t(1) e(1) lens]
  note sb = gae_body_standard_nth(1) [OF fh(2) wf(2) t(2) e(2) ll las]
  have last0: "Suc t = num_steps args \<Longrightarrow> lastgaelam (gae_after ?s ro (Suc t)) ! e = 0"
    using assms(4) by (simp add: gae_after_def gae_init_def)
  have F: "compute_advantages ?f ro ! t ! e
           = rewards ro ! t ! e + gamma args * real_next_values args ro t ! e
             - values_buf ro ! t ! e"
    using assms(5) fb(1,2,3) fb(4) [OF laf] advantages_final [of t ?f ro] assms(3)
    by (auto simp: gae_after_step [OF t(1)])
  have S: "compute_advantages ?s ro ! t ! e
           = rewards ro ! t ! e + gamma args * real_next_values args ro t ! e
             - values_buf ro ! t ! e"
    using assms(5) sb last0 advantages_final [of t ?s ro] assms(3)
    by (auto simp: gae_after_step [OF t(2)])
  from F S show ?thesis by simp
qed

theorem gae_branches_agree_last_step_or_lambda_zero_witness:
  "wf_rollout no_end_args no_end_rollout \<and> no_episode_end no_end_rollout \<and>
   Suc 1 = num_steps no_end_args \<and> 0 < num_envs no_end_args \<and>
   compute_advantages (no_end_args \<lparr> finite_horizon_gae := True \<rparr>) no_end_rollout ! 1 ! 0 = 3 \<and>
   compute_advantages (no_end_args \<lparr> finite_horizon_gae := False \<rparr>) no_end_rollout ! 1 ! 0
     = 3 \<and>
   gae_lambda (no_end_args \<lparr> gae_lambda := 0 \<rparr>) = 0 \<and>
   compute_advantages (no_end_args \<lparr> gae_lambda := 0, finite_horizon_gae := True \<rparr>)
     no_end_rollout ! 0 ! 0
   = compute_advantages (no_end_args \<lparr> gae_lambda := 0, finite_horizon_gae := False \<rparr>)
     no_end_rollout ! 0 ! 0"
  using gae_branches_agree_last_step_or_lambda_zero [of no_end_args no_end_rollout 1 0]
    gae_branches_agree_last_step_or_lambda_zero
      [of "no_end_args \<lparr> gae_lambda := 0 \<rparr>" no_end_rollout 0 0]
  by (simp add: gae_eval no_end_args_def no_end_rollout_def no_episode_end_def eval_nat_numeral)

text \<open>
  The claim as the specification states it fails: with no episode end, rewards 0 and 3,
  values 0, \<open>\<gamma> = 1\<close> and \<open>\<lambda> = 1/2\<close>, the finite-horizon branch gives the first step the
  advantage \<open>(\<lambda> \<cdot> 3) / (1 + \<lambda>) = 1\<close>, the standard recursion \<open>\<gamma> \<lambda> \<cdot> 3 = 3/2\<close>. All the
  numbers involved are dyadic, so the gap of \<open>1/2\<close> is not a rounding effect.
\<close>

theorem gae_branches_differ_no_episode_end:
  "wf_rollout no_end_args no_end_rollout \<and> no_episode_end no_end_rollout \<and>
   compute_advantages (no_end_args \<lparr> finite_horizon_gae := True \<rparr>) no_end_rollout ! 0 ! 0 = 1 \<and>
   compute_advantages (no_end_args \<lparr> finite_horizon_gae := False \<rparr>) no_end_rollout ! 0 ! 0
     = 3 / 2"
  by (simp add: gae_eval no_end_args_def no_end_rollout_def no_episode_end_def eval_nat_numeral)

subsection \<open>Masks and indexed assignment\<close>

lemma length_index_put [simp]: "length (index_put row is vs) = length row"
  by (induction row "is" vs rule: index_put.induct) simp_all

lemma index_put_notin: "e \<notin> set is \<Longrightarrow> index_put row is vs ! e = row ! e"
  by (induction row "is" vs rule: index_put.induct) auto

lemma index_put_map:
  "\<forall>i \<in> set is. i < length row \<Longrightarrow> e \<in> set is \<Longrightarrow> index_put row is (map g is) ! e = g e"
proof (induction "is" arbitrary: row)
  case Nil
  then show ?case by simp
next
  case (Cons i "is")
  show ?case
  proof (cases "e \<in> set is")
    case True
    then show ?thesis using Cons.IH [of "row[i := g i]"] Cons.prems by simp
  next
    case False
    then have "e = i" using Cons.prems by simp
    then show ?thesis using False Cons.prems by (simp add: index_put_notin)
  qed
qed

lemma mask_select_map: "mask_select (map g xs) m = map g (mask_select xs m)"
  by (induction xs m rule: mask_select.induct) simp_all

lemma mask_select_nth: "mask_select xs m = map (\<lambda>i. xs ! i) (mask_select [0..<length xs] m)"
proof -
  have "mask_select (map (\<lambda>i. xs ! i) [0..<length xs]) m
        = map (\<lambda>i. xs ! i) (mask_select [0..<length xs] m)"
    by (rule mask_select_map)
  then show ?thesis by (simp add: map_nth)
qed

lemma set_mask_select_upt:
  "set (mask_select [k..<k + length m] m) = {k + j | j. j < length m \<and> m ! j}"
proof (induction m arbitrary: k)
  case Nil
  show ?case by simp
next
  case (Cons b m)
  have upt: "[k..<k + length (b # m)] = k # [Suc k..<Suc k + length m]"
    using upt_conv_Cons [of k "k + length (b # m)"] by simp
  have split: "{k + j | j. j < length (b # m) \<and> (b # m) ! j}
               = (if b then {k} else {}) \<union> {Suc k + j | j. j < length m \<and> m ! j}"
  proof (rule set_eqI)
    fix x
    show "x \<in> {k + j | j. j < length (b # m) \<and> (b # m) ! j}
          \<longleftrightarrow> x \<in> (if b then {k} else {}) \<union> {Suc k + j | j. j < length m \<and> m ! j}"
    proof
      assume "x \<in> {k + j | j. j < length (b # m) \<and> (b # m) ! j}"
      then obtain j where j: "x = k + j" "j < length (b # m)" "(b # m) ! j" by blast
      show "x \<in> (if b then {k} else {}) \<union> {Suc k + j | j. j < length m \<and> m ! j}"
      proof (cases j)
        case 0
        then show ?thesis using j by simp
      next
        case (Suc j')
        then have "x = Suc k + j'" "j' < length m" "m ! j'" using j by simp_all
        then show ?thesis by blast
      qed
    next
      assume "x \<in> (if b then {k} else {}) \<union> {Suc k + j | j. j < length m \<and> m ! j}"
      then consider "b" "x = k" | j where "x = Suc k + j" "j < length m" "m ! j"
        by (auto split: if_splits)
      then show "x \<in> {k + j | j. j < length (b # m) \<and> (b # m) ! j}"
      proof cases
        case 1
        then have "x = k + 0 \<and> 0 < length (b # m) \<and> (b # m) ! 0" by simp
        then show ?thesis by blast
      next
        case 2
        then have "x = k + Suc j \<and> Suc j < length (b # m) \<and> (b # m) ! Suc j" by simp
        then show ?thesis by blast
      qed
    qed
  qed
  show ?case
    unfolding upt split using Cons.IH [of "Suc k"] by simp
qed

lemma set_mask_select_indices:
  "length m = n \<Longrightarrow> set (mask_select [0..<n] m) = {i. i < n \<and> m ! i}"
  using set_mask_select_upt [of 0 m] by simp

lemma length_mask_select_indices:
  "length (mask_select xs m) = length (mask_select [0..<length xs] m)"
  by (subst mask_select_nth) simp

lemma mask_obs_ok:
  "list_all (\<lambda>(k, rows). length rows = length m) ob \<Longrightarrow>
   mask_obs m ob = Inr (map (\<lambda>(k, rows). (k, mask_select rows m)) ob)"
  by (induction ob) (auto simp: mask_index_def)

lemma batch_len_masked:
  assumes "ob \<noteq> []" "list_all (\<lambda>(k, rows). length rows = n) ob"
  shows "batch_len (map (\<lambda>(k, rows). (k, mask_select rows m)) ob)
         = length (mask_select [0..<n] m)"
proof -
  obtain k rows rest where ob: "ob = (k, rows) # rest"
    using assms(1) by (cases ob) auto
  then have "length rows = n" using assms(2) by simp
  then show ?thesis
    using length_mask_select_indices [of rows m] by (simp add: ob batch_len_def)
qed

lemma sample_at_masked:
  assumes "list_all (\<lambda>(k, rows). length rows = n) ob"
    and "j < length (mask_select [0..<n] m)"
  shows "sample_at (map (\<lambda>(k, rows). (k, mask_select rows m)) ob) j
         = sample_at ob (mask_select [0..<n] m ! j)"
  using assms(1)
proof (induction ob)
  case Nil
  show ?case by (simp add: sample_at_def)
next
  case (Cons kr ob)
  obtain k rows where kr: "kr = (k, rows)" by (cases kr)
  then have len: "length rows = n" using Cons.prems by simp
  have "mask_select rows m ! j = rows ! (mask_select [0..<n] m ! j)"
    using assms(2) len by (subst mask_select_nth) simp
  then show ?case
    using Cons kr by (simp add: sample_at_def)
qed

lemma get_value_masked:
  assumes "ob \<noteq> []" "list_all (\<lambda>(k, rows). length rows = n) ob"
  shows "get_value agent (map (\<lambda>(k, rows). (k, mask_select rows m)) ob)
         = map (\<lambda>i. critic agent (sample_at ob i)) (mask_select [0..<n] m)"
proof -
  let ?is = "mask_select [0..<n] m"
  let ?ob = "map (\<lambda>(k, rows). (k, mask_select rows m)) ob"
  have "get_value agent ?ob = map (\<lambda>j. critic agent (sample_at ?ob j)) [0..<length ?is]"
    by (simp add: get_value_def batch_len_masked [OF assms])
  also have "\<dots> = map (\<lambda>j. critic agent (sample_at ob (?is ! j))) [0..<length ?is]"
    by (rule map_cong) (simp_all add: sample_at_masked [OF assms(2)])
  also have "\<dots> = map (\<lambda>i. critic agent (sample_at ob i)) (map (\<lambda>j. ?is ! j) [0..<length ?is])"
    by simp
  also have "\<dots> = map (\<lambda>i. critic agent (sample_at ob i)) ?is"
    by (simp only: map_nth)
  finally show ?thesis .
qed

lemma index_put_mask_nth:
  assumes "length m = n" "length row = n" "e < n"
  shows "index_put row (mask_select [0..<n] m) (map g (mask_select [0..<n] m)) ! e
         = (if m ! e then g e else row ! e)"
proof -
  let ?is = "mask_select [0..<n] m"
  have set_is: "set ?is = {i. i < n \<and> m ! i}"
    by (rule set_mask_select_indices [OF assms(1)])
  show ?thesis
  proof (cases "m ! e")
    case True
    then have "e \<in> set ?is" using set_is assms(3) by simp
    moreover have "\<forall>i \<in> set ?is. i < length row" using set_is assms(2) by simp
    ultimately show ?thesis using True by (simp add: index_put_map)
  next
    case False
    then have "e \<notin> set ?is" using set_is by simp
    then show ?thesis using False by (simp add: index_put_notin)
  qed
qed

subsection \<open>The block for ended episodes\<close>

lemma final_info_block_some:
  assumes "final_info info = Some fi" "stats_ok args fi"
    and "final_info_mask info = Some m" "length m = num_envs args"
    and "final_observation info = Some fo" "fo \<noteq> []"
      "list_all (\<lambda>(k, rows). length rows = num_envs args) fo"
    and "step < length fvs" "length (fvs ! step) = num_envs args"
  shows "\<exists>w'. final_info_block args agent step gs info fvs w
           = Inr (fvs[step := index_put (fvs ! step) (mask_select [0..<num_envs args] m)
                               (map (\<lambda>i. critic agent (sample_at fo i))
                                  (mask_select [0..<num_envs args] m))], w')"
proof -
  let ?is = "mask_select [0..<num_envs args] m"
  from assms(2) obtain ep r su el where st:
    "episode fi = Some ep" "map_of ep ''r'' = Some r" "length r = num_envs args"
    "success fi = Some su" "length su = num_envs args"
    "elapsed_steps fi = Some el" "length el = num_envs args"
    by (auto simp: stats_ok_def split: option.splits)
  have mo: "mask_obs m fo = Inr (map (\<lambda>(k, rows). (k, mask_select rows m)) fo)"
    using assms(4,7) by (intro mask_obs_ok) simp
  have gv: "get_value agent (map (\<lambda>(k, rows). (k, mask_select rows m)) fo)
            = map (\<lambda>i. critic agent (sample_at fo i)) ?is"
    by (rule get_value_masked [OF assms(6,7)])
  have "set ?is = {i. i < num_envs args \<and> m ! i}"
    by (rule set_mask_select_indices [OF assms(4)])
  then have inr: "list_all (\<lambda>i. i < length (fvs ! step)) ?is"
    using assms(9) by (simp add: list_all_iff)
  have ia: "index_assign fvs step ?is (map (\<lambda>i. critic agent (sample_at fo i)) ?is)
            = Inr (fvs[step := index_put (fvs ! step) ?is
                                 (map (\<lambda>i. critic agent (sample_at fo i)) ?is)])"
    using assms(8) inr by (simp add: index_assign_def)
  show ?thesis
    unfolding final_info_block_def
    using assms(1,3,4,5) st mo gv ia
    by (simp add: bind_err_def lookup_def mask_index_def)
qed

lemma final_info_block_ok:
  assumes "reply_ok args res" "step < length fvs" "length (fvs ! step) = num_envs args"
  shows "\<exists>row w'. final_info_block args agent step gs (infos res) fvs w
             = Inr (fvs[step := row], w') \<and>
           length row = num_envs args \<and>
           (\<forall>e < num_envs args.
              row ! e = (if step_done res ! e = 1
                         then critic agent (sample_at (the (final_observation (infos res))) e)
                         else fvs ! step ! e)) \<and>
           (\<forall>e < num_envs args. step_done res ! e = 1 \<longrightarrow>
              final_observation (infos res) \<noteq> None)"
proof (cases "final_info (infos res)")
  case None
  then have z: "list_all (\<lambda>d. d = 0) (step_done res)"
    using assms(1) by (simp add: reply_ok_def)
  have len: "length (step_done res) = num_envs args"
    using assms(1) by (simp add: step_done_def reply_ok_def)
  have nd: "\<forall>e < num_envs args. step_done res ! e \<noteq> 1"
    using z len by (simp add: list_all_length)
  have "final_info_block args agent step gs (infos res) fvs w = Inr (fvs[step := fvs ! step], w)"
    using None by (simp add: final_info_block_def)
  then show ?thesis
    using assms(3) nd by (intro exI [of _ "fvs ! step"] exI [of _ w]) simp
next
  case (Some fi)
  with assms(1) obtain m fo where ok: "stats_ok args fi"
    "final_info_mask (infos res) = Some m" "length m = num_envs args"
    "list_all (\<lambda>(m, d). m = (d = 1)) (zip m (step_done res))"
    "final_observation (infos res) = Some fo" "fo \<noteq> []"
    "list_all (\<lambda>(k, rows). length rows = num_envs args) fo"
    by (auto simp: reply_ok_def split: option.splits)
  have len: "length (step_done res) = num_envs args"
    using assms(1) by (simp add: step_done_def reply_ok_def)
  have md: "\<forall>e < num_envs args. m ! e = (step_done res ! e = 1)"
    using ok(3,4) len by (simp add: list_all_length)
  let ?row = "index_put (fvs ! step) (mask_select [0..<num_envs args] m)
                (map (\<lambda>i. critic agent (sample_at fo i)) (mask_select [0..<num_envs args] m))"
  from final_info_block_some [OF Some ok(1,2,3,5,6,7) assms(2,3), of agent gs w]
  obtain w' where r: "final_info_block args agent step gs (infos res) fvs w
                      = Inr (fvs[step := ?row], w')" by blast
  have "length ?row = num_envs args" using assms(3) by simp
  moreover have "\<forall>e < num_envs args.
              ?row ! e = (if step_done res ! e = 1
                         then critic agent (sample_at (the (final_observation (infos res))) e)
                         else fvs ! step ! e)"
    using index_put_mask_nth [OF ok(3) assms(3)] md ok(5) by simp
  moreover have "\<forall>e < num_envs args. step_done res ! e = 1 \<longrightarrow>
              final_observation (infos res) \<noteq> None"
    using ok(5) by simp
  ultimately show ?thesis using r by blast
qed

subsection \<open>One step of the collection\<close>

lemma shape_ok_update:
  "shape_ok args rows \<Longrightarrow> length row = num_envs args \<Longrightarrow> shape_ok args (rows[step := row])"
  by (cases "step < length rows") (auto simp: shape_ok_def list_all_length nth_list_update)

lemma assign_row_ok:
  "shape_ok args rows \<Longrightarrow> step < num_steps args \<Longrightarrow> length row = num_envs args \<Longrightarrow>
   assign_row rows step row = Inr (rows[step := row])"
  by (simp add: assign_row_def shape_ok_def list_all_length)

lemma set_item_ok: "step < length rows \<Longrightarrow> set_item rows step x = Inr (rows[step := x])"
  by (simp add: set_item_def)

lemma step_done_flags:
  "list_all (\<lambda>d. d = 0 \<or> d = 1) (step_done res)"
  by (simp add: step_done_def list_all_length)

lemma rollout_step_ok:
  assumes "start_ok args st" "shape_ok args (final_values (buf st))"
    and "agent_ok args agent" "reply_ok args (replies step)" "step < num_steps args"
  shows "\<exists>st' row. rollout_step args agent replies step st = Inr st' \<and>
           start_ok args st' \<and> shape_ok args (final_values (buf st')) \<and>
           dones (buf st') = (dones (buf st))[step := next_done (buf st)] \<and>
           next_done (buf st') = step_done (replies step) \<and>
           rewards (buf st') = (rewards (buf st))[step := reward (replies step)] \<and>
           next_obs st' = next_obs_r (replies step) \<and>
           final_values (buf st') = (final_values (buf st))[step := row] \<and>
           (\<forall>e < num_envs args.
              row ! e = (if step_done (replies step) ! e = 1
                         then critic agent
                                (sample_at (the (final_observation (infos (replies step)))) e)
                         else final_values (buf st) ! step ! e)) \<and>
           (\<forall>e < num_envs args. step_done (replies step) ! e = 1 \<longrightarrow>
              final_observation (infos (replies step)) \<noteq> None)"
proof -
  let ?gs = "global_step st + num_envs args"
  let ?res = "replies step"
  obtain a l v where g: "get_action_and_value agent ?gs (next_obs st) = (a, l, v)"
    by (cases "get_action_and_value agent ?gs (next_obs st)") auto
  have lv: "length l = num_envs args" "length v = num_envs args"
    using assms(3) g unfolding agent_ok_def
    by (metis fst_conv snd_conv)+
  have so: "shape_ok args (rewards (buf st))" "shape_ok args (dones (buf st))"
    "shape_ok args (values_buf (buf st))" "shape_ok args (logprobs st)"
    "length (obs st) = num_steps args" "length (actions st) = num_steps args"
    "length (next_done (buf st)) = num_envs args"
    using assms(1) by (simp_all add: start_ok_def)
  have lr: "length (reward ?res) = num_envs args" "batch_len (next_obs_r ?res) = num_envs args"
    "length (step_done ?res) = num_envs args"
    using assms(4) by (simp_all add: reply_ok_def step_done_def)
  have fl: "step < length (final_values (buf st))"
    "length (final_values (buf st) ! step) = num_envs args"
    using assms(2,5) by (simp_all add: shape_ok_def list_all_length)
  from final_info_block_ok [OF assms(4) fl, of agent ?gs "writer st"]
  obtain row w' where blk:
    "final_info_block args agent step ?gs (infos ?res) (final_values (buf st)) (writer st)
       = Inr ((final_values (buf st))[step := row], w')"
    "length row = num_envs args"
    "\<forall>e < num_envs args.
       row ! e = (if step_done ?res ! e = 1
                  then critic agent (sample_at (the (final_observation (infos ?res))) e)
                  else final_values (buf st) ! step ! e)"
    "\<forall>e < num_envs args. step_done ?res ! e = 1 \<longrightarrow> final_observation (infos ?res) \<noteq> None"
    by blast
  let ?st' = "st \<lparr> buf := (buf st) \<lparr> dones := (dones (buf st))[step := next_done (buf st)],
                                   values_buf := (values_buf (buf st))[step := v],
                                   next_done := step_done ?res,
                                   rewards := (rewards (buf st))[step := reward ?res],
                                   final_values := (final_values (buf st))[step := row] \<rparr>,
                     obs := (obs st)[step := next_obs st],
                     actions := (actions st)[step := a],
                     logprobs := (logprobs st)[step := l],
                     next_obs := next_obs_r ?res, global_step := ?gs, writer := w' \<rparr>"
  have r: "rollout_step args agent replies step st = Inr ?st'"
    unfolding rollout_step_def Let_def g
    using assms(5) so lv lr blk(1)
    by (simp add: bind_err_def set_item_ok assign_row_ok)
  have s': "start_ok args ?st'"
    using so lv lr assms(5) step_done_flags [of ?res]
    by (simp add: start_ok_def shape_ok_update)
  have f': "shape_ok args (final_values (buf ?st'))"
    using assms(2) blk(2) by (simp add: shape_ok_update)
  show ?thesis
    using r s' f' blk(3,4) by (intro exI [of _ ?st'] exI [of _ row]) simp
qed

subsection \<open>The collection loop\<close>

text \<open>
  The loop over the steps \<open>step, \<dots>, step + n - 1\<close> returns. It leaves the rows of other
  steps as they were; the rows it writes hold the reward and the done flags of the
  replies, and the bootstrap row for step \<open>t\<close> holds the critic's value of the final
  observation where the episode ended at that step and what it held before elsewhere.
\<close>

lemma rollout_loop_ok:
  assumes "agent_ok args agent"
  shows "start_ok args st \<Longrightarrow> shape_ok args (final_values (buf st)) \<Longrightarrow>
         \<forall>t. step \<le> t \<and> t < step + n \<longrightarrow> reply_ok args (replies t) \<Longrightarrow>
         step + n \<le> num_steps args \<Longrightarrow>
         \<exists>st'. rollout_loop args agent replies step n st = Inr st' \<and>
           start_ok args st' \<and> shape_ok args (final_values (buf st')) \<and>
           (\<forall>t. t < step \<or> step + n \<le> t \<longrightarrow>
              dones (buf st') ! t = dones (buf st) ! t \<and>
              rewards (buf st') ! t = rewards (buf st) ! t \<and>
              final_values (buf st') ! t = final_values (buf st) ! t) \<and>
           (\<forall>t. step \<le> t \<and> t < step + n \<longrightarrow>
              rewards (buf st') ! t = reward (replies t) \<and>
              dones (buf st') ! t
                = (if t = step then next_done (buf st) else step_done (replies (t - 1))) \<and>
              (\<forall>e < num_envs args.
                 final_values (buf st') ! t ! e
                   = (if step_done (replies t) ! e = 1
                      then critic agent
                             (sample_at (the (final_observation (infos (replies t)))) e)
                      else final_values (buf st) ! t ! e))) \<and>
           next_done (buf st')
             = (if n = 0 then next_done (buf st) else step_done (replies (step + n - 1))) \<and>
           next_obs st' = (if n = 0 then next_obs st else next_obs_r (replies (step + n - 1)))"
proof (induction n arbitrary: step st)
  case 0
  then show ?case by auto
next
  case (Suc n)
  have rs: "reply_ok args (replies step)" and lt: "step < num_steps args"
    using Suc.prems(3,4) by simp_all
  from rollout_step_ok [where replies = replies and step = step, OF Suc.prems(1,2) assms rs lt]
  obtain s1 row where s1: "rollout_step args agent replies step st = Inr s1"
    "start_ok args s1" "shape_ok args (final_values (buf s1))"
    "dones (buf s1) = (dones (buf st))[step := next_done (buf st)]"
    "next_done (buf s1) = step_done (replies step)"
    "rewards (buf s1) = (rewards (buf st))[step := reward (replies step)]"
    "next_obs s1 = next_obs_r (replies step)"
    "final_values (buf s1) = (final_values (buf st))[step := row]"
    "\<forall>e < num_envs args.
       row ! e = (if step_done (replies step) ! e = 1
                  then critic agent
                         (sample_at (the (final_observation (infos (replies step)))) e)
                  else final_values (buf st) ! step ! e)"
    by blast
  have len: "step < length (dones (buf st))" "step < length (rewards (buf st))"
    "step < length (final_values (buf st))"
    using Suc.prems(1,2) lt by (simp_all add: start_ok_def shape_ok_def)
  have r': "\<forall>t. Suc step \<le> t \<and> t < Suc step + n \<longrightarrow> reply_ok args (replies t)"
    using Suc.prems(3) by simp
  have b': "Suc step + n \<le> num_steps args" using Suc.prems(4) by simp
  from Suc.IH [OF s1(2,3) r' b']
  obtain st' where st': "rollout_loop args agent replies (Suc step) n s1 = Inr st'"
    "start_ok args st'" "shape_ok args (final_values (buf st'))"
    "\<forall>t. t < Suc step \<or> Suc step + n \<le> t \<longrightarrow>
        dones (buf st') ! t = dones (buf s1) ! t \<and>
        rewards (buf st') ! t = rewards (buf s1) ! t \<and>
        final_values (buf st') ! t = final_values (buf s1) ! t"
    "\<forall>t. Suc step \<le> t \<and> t < Suc step + n \<longrightarrow>
        rewards (buf st') ! t = reward (replies t) \<and>
        dones (buf st') ! t
          = (if t = Suc step then next_done (buf s1) else step_done (replies (t - 1))) \<and>
        (\<forall>e < num_envs args.
           final_values (buf st') ! t ! e
             = (if step_done (replies t) ! e = 1
                then critic agent
                       (sample_at (the (final_observation (infos (replies t)))) e)
                else final_values (buf s1) ! t ! e))"
    "next_done (buf st')
       = (if n = 0 then next_done (buf s1) else step_done (replies (Suc step + n - 1)))"
    "next_obs st' = (if n = 0 then next_obs s1 else next_obs_r (replies (Suc step + n - 1)))"
    by blast
  have run: "rollout_loop args agent replies step (Suc n) st = Inr st'"
    using s1(1) st'(1) by simp
  have frame: "\<forall>t. t < step \<or> step + Suc n \<le> t \<longrightarrow>
        dones (buf st') ! t = dones (buf st) ! t \<and>
        rewards (buf st') ! t = rewards (buf st) ! t \<and>
        final_values (buf st') ! t = final_values (buf st) ! t"
  proof (intro allI impI)
    fix t assume t: "t < step \<or> step + Suc n \<le> t"
    then have a: "t < Suc step \<or> Suc step + n \<le> t" and ne: "step \<noteq> t" by auto
    from st'(4) a have "dones (buf st') ! t = dones (buf s1) ! t \<and>
        rewards (buf st') ! t = rewards (buf s1) ! t \<and>
        final_values (buf st') ! t = final_values (buf s1) ! t" by blast
    then show "dones (buf st') ! t = dones (buf st) ! t \<and>
        rewards (buf st') ! t = rewards (buf st) ! t \<and>
        final_values (buf st') ! t = final_values (buf st) ! t"
      using ne by (simp add: s1(4,6,8))
  qed
  have written: "\<forall>t. step \<le> t \<and> t < step + Suc n \<longrightarrow>
        rewards (buf st') ! t = reward (replies t) \<and>
        dones (buf st') ! t
          = (if t = step then next_done (buf st) else step_done (replies (t - 1))) \<and>
        (\<forall>e < num_envs args.
           final_values (buf st') ! t ! e
             = (if step_done (replies t) ! e = 1
                then critic agent
                       (sample_at (the (final_observation (infos (replies t)))) e)
                else final_values (buf st) ! t ! e))"
  proof (intro allI impI)
    fix t assume t: "step \<le> t \<and> t < step + Suc n"
    show "rewards (buf st') ! t = reward (replies t) \<and>
        dones (buf st') ! t
          = (if t = step then next_done (buf st) else step_done (replies (t - 1))) \<and>
        (\<forall>e < num_envs args.
           final_values (buf st') ! t ! e
             = (if step_done (replies t) ! e = 1
                then critic agent
                       (sample_at (the (final_observation (infos (replies t)))) e)
                else final_values (buf st) ! t ! e))"
    proof (cases "t = step")
      case True
      then have "t < Suc step \<or> Suc step + n \<le> t" by simp
      with st'(4) have "dones (buf st') ! t = dones (buf s1) ! t \<and>
        rewards (buf st') ! t = rewards (buf s1) ! t \<and>
        final_values (buf st') ! t = final_values (buf s1) ! t" by blast
      then show ?thesis using True s1(9) len by (simp add: s1(4,6,8))
    next
      case False
      then have t': "Suc step \<le> t \<and> t < Suc step + n" using t by simp
      have fv: "final_values (buf s1) ! t = final_values (buf st) ! t"
        using False by (simp add: s1(8))
      from st'(5) t' have w: "rewards (buf st') ! t = reward (replies t) \<and>
        dones (buf st') ! t
          = (if t = Suc step then next_done (buf s1) else step_done (replies (t - 1))) \<and>
        (\<forall>e < num_envs args.
           final_values (buf st') ! t ! e
             = (if step_done (replies t) ! e = 1
                then critic agent
                       (sample_at (the (final_observation (infos (replies t)))) e)
                else final_values (buf s1) ! t ! e))" by blast
      have "(if t = Suc step then next_done (buf s1) else step_done (replies (t - 1)))
            = step_done (replies (t - 1))"
        using s1(5) by auto
      then show ?thesis using w False fv by simp
    qed
  qed
  have nd: "next_done (buf st') = step_done (replies (step + Suc n - 1))"
    using st'(6) s1(5) by (cases n) simp_all
  have no: "next_obs st' = next_obs_r (replies (step + Suc n - 1))"
    using st'(7) s1(7) by (cases n) simp_all
  show ?case
    using run st'(2,3) frame written nd no by (intro exI [of _ st']) simp
qed



text \<open>
  The iteration's collection returns, and what its buffers hold: the shapes, the done
  flag the estimator reads for step \<open>t\<close>, which is the one step \<open>t\<close> produced, and the
  bootstrap buffer.
\<close>

lemma collect_ok:
  assumes "start_ok args st0" "agent_ok args agent"
    "\<forall>t < num_steps args. reply_ok args (replies t)"
  shows "\<exists>st. collect args agent replies st0 = Inr st \<and>
           shape_ok args (rewards (buf st)) \<and> shape_ok args (dones (buf st)) \<and>
           shape_ok args (values_buf (buf st)) \<and> shape_ok args (final_values (buf st)) \<and>
           length (next_done (buf st)) = num_envs args \<and>
           list_all (\<lambda>d. d = 0 \<or> d = 1) (next_done (buf st)) \<and>
           length (next_value (buf st)) = num_envs args \<and>
           (\<forall>t < num_steps args.
              list_all (\<lambda>d. d = 0 \<or> d = 1) (dones (buf st) ! t) \<and>
              done_after args (buf st) t = step_done (replies t) \<and>
              (\<forall>e < num_envs args.
                 final_values (buf st) ! t ! e
                   = (if step_done (replies t) ! e = 1
                      then critic agent
                             (sample_at (the (final_observation (infos (replies t)))) e)
                      else 0)))"
proof -
  let ?H = "num_steps args"
  let ?st1 = "st0 \<lparr> buf := (buf st0)
                 \<lparr> final_values := replicate ?H (replicate (num_envs args) 0) \<rparr> \<rparr>"
  have s1: "start_ok args ?st1" using assms(1) by (simp add: start_ok_def)
  have f1: "shape_ok args (final_values (buf ?st1))"
    by (simp add: shape_ok_def list_all_length)
  have r: "\<forall>t. 0 \<le> t \<and> t < 0 + ?H \<longrightarrow> reply_ok args (replies t)"
    using assms(3) by simp
  from rollout_loop_ok [OF assms(2) s1 f1 r]
  obtain st2 where st2: "rollout_loop args agent replies 0 ?H ?st1 = Inr st2"
    "start_ok args st2" "shape_ok args (final_values (buf st2))"
    "\<forall>t. 0 \<le> t \<and> t < 0 + ?H \<longrightarrow>
        rewards (buf st2) ! t = reward (replies t) \<and>
        dones (buf st2) ! t
          = (if t = 0 then next_done (buf ?st1) else step_done (replies (t - 1))) \<and>
        (\<forall>e < num_envs args.
           final_values (buf st2) ! t ! e
             = (if step_done (replies t) ! e = 1
                then critic agent
                       (sample_at (the (final_observation (infos (replies t)))) e)
                else final_values (buf ?st1) ! t ! e))"
    "next_done (buf st2)
       = (if ?H = 0 then next_done (buf ?st1) else step_done (replies (0 + ?H - 1)))"
    by auto
  let ?st = "st2 \<lparr> buf := (buf st2) \<lparr> next_value := get_value agent (next_obs st2) \<rparr> \<rparr>"
  have c: "collect args agent replies st0 = Inr ?st"
    using st2(1) by (simp add: collect_def Let_def)
  have sh: "shape_ok args (rewards (buf ?st))" "shape_ok args (dones (buf ?st))"
    "shape_ok args (values_buf (buf ?st))" "shape_ok args (final_values (buf ?st))"
    "length (next_done (buf ?st)) = num_envs args"
    "list_all (\<lambda>d. d = 0 \<or> d = 1) (next_done (buf ?st))"
    "length (next_value (buf ?st)) = num_envs args"
    using st2(2,3) by (simp_all add: start_ok_def get_value_def)
  have rows: "list_all (\<lambda>d. d = 0 \<or> d = 1) (dones (buf ?st) ! t) \<and>
              done_after args (buf ?st) t = step_done (replies t) \<and>
              (\<forall>e < num_envs args.
                 final_values (buf ?st) ! t ! e
                   = (if step_done (replies t) ! e = 1
                      then critic agent
                             (sample_at (the (final_observation (infos (replies t)))) e)
                      else 0))" if t: "t < ?H" for t
  proof -
    from st2(4) t have w: "dones (buf st2) ! t
          = (if t = 0 then next_done (buf ?st1) else step_done (replies (t - 1)))"
      "\<forall>e < num_envs args.
           final_values (buf st2) ! t ! e
             = (if step_done (replies t) ! e = 1
                then critic agent
                       (sample_at (the (final_observation (infos (replies t)))) e)
                else final_values (buf ?st1) ! t ! e)"
      by simp_all
    have fl: "list_all (\<lambda>d. d = 0 \<or> d = 1) (dones (buf st2) ! t)"
      using w(1) assms(1) step_done_flags [of "replies (t - 1)"]
      by (simp add: start_ok_def)
    have da: "done_after args (buf st2) t = step_done (replies t)"
    proof (cases "Suc t = ?H")
      case True
      then have "?H - 1 = t" "?H \<noteq> 0" by simp_all
      then show ?thesis using st2(5) True by (simp add: done_after_def)
    next
      case False
      then have "Suc t < ?H" using t by simp
      with st2(4) have "dones (buf st2) ! Suc t
          = (if Suc t = 0 then next_done (buf ?st1) else step_done (replies (Suc t - 1)))"
        by simp
      then show ?thesis using False by (simp add: done_after_def)
    qed
    have z: "\<forall>e < num_envs args. final_values (buf ?st1) ! t ! e = 0"
      using t by simp
    have da': "done_after args (buf ?st) t = step_done (replies t)"
      using da by (auto simp: done_after_def split: if_splits)
    show ?thesis using fl da' w(2) z by simp
  qed
  show ?thesis
    using c sh rows by (intro exI [of _ ?st]) simp
qed

text \<open>
  The rollout the collector hands to the advantage estimation has the properties the
  theorem on the three sums asks for.
\<close>

lemma collect_rollout_ok:
  fixes agent :: "('x, 'a) Agent"
  assumes "start_ok args st0" "agent_ok args agent"
    "\<forall>t < num_steps args. reply_ok args (replies t)"
  shows "\<exists>st. collect args agent replies st0 = Inr st \<and>
           wf_rollout args (buf st) \<and> flags_ok (buf st) \<and> bootstrap_sparse args (buf st)"
proof -
  from collect_ok [OF assms] obtain st where st:
    "collect args agent replies st0 = Inr st"
    "shape_ok args (rewards (buf st))" "shape_ok args (dones (buf st))"
    "shape_ok args (values_buf (buf st))" "shape_ok args (final_values (buf st))"
    "length (next_done (buf st)) = num_envs args"
    "list_all (\<lambda>d. d = 0 \<or> d = 1) (next_done (buf st))"
    "length (next_value (buf st)) = num_envs args"
    "\<forall>t < num_steps args.
        list_all (\<lambda>d. d = 0 \<or> d = 1) (dones (buf st) ! t) \<and>
        done_after args (buf st) t = step_done (replies t) \<and>
        (\<forall>e < num_envs args.
           final_values (buf st) ! t ! e
             = (if step_done (replies t) ! e = 1
                then critic agent
                       (sample_at (the (final_observation (infos (replies t)))) e)
                else 0))"
    by blast
  have wf: "wf_rollout args (buf st)"
    using st(2-6,8) by (simp add: wf_rollout_def)
  have fl: "flags_ok (buf st)"
    using st(3,7,9) by (simp add: flags_ok_def shape_ok_def list_all_length)
  have "list_all (\<lambda>(fv, d). fv = 0 \<or> d = 1)
          (zip (final_values (buf st) ! t) (done_after args (buf st) t))"
    if t: "t < num_steps args" for t
  proof -
    have l1: "length (final_values (buf st) ! t) = num_envs args"
      using st(5) t by (rule shape_okD)
    have l2: "length (step_done (replies t)) = num_envs args"
      using assms(3) t by (simp add: step_done_def reply_ok_def)
    show ?thesis
      using st(9) t l1 l2 by (simp add: list_all_length)
  qed
  then have "bootstrap_sparse args (buf st)"
    by (simp add: bootstrap_sparse_def list_all_length)
  with st(1) wf fl show ?thesis by blast
qed


lemmas demo_eval = collect_def rollout_step_def final_info_block_def bind_err_def lookup_def
  mask_index_def index_assign_def assign_row_def set_item_def tensor_mean_def mean_def
  get_value_def sample_at_def batch_len_def step_done_def start_ok_def reply_ok_def
  stats_ok_def shape_ok_def done_after_def agent_ok_def
  demo_args_def demo_agent_def demo_replies_def demo_replies_no_success_def
  demo_replies_with_def demo_stats_def no_infos_def demo_start_def default_args_def Let_def




text \<open>
  When the environment does not report \<^verbatim>\<open>success\<close>, line 453 raises before line 458
  stores the bootstrap values, and the iteration ends there.
\<close>

lemma collect_raises_without_success:
  "collect demo_args demo_agent demo_replies_no_success demo_start = Inl KeyError"
  by (simp add: demo_eval eval_nat_numeral upt_rec)

subsection \<open>The update loops\<close>

lemma stepped_simps [simp]:
  "stepped args learner b \<theta> [] = \<theta>"
  "stepped args learner b \<theta> (mb # mbs)
   = stepped args learner b (optimizer_step learner \<theta> (loss args learner b mb)) mbs"
  "stepped args learner b \<theta> (xs @ ys)
   = stepped args learner b (stepped args learner b \<theta> xs) ys"
  by (simp_all add: stepped_def)

lemma exceeds_at_Cons:
  "exceeds_at args learner b \<theta> (mb # mbs) 0 = kl_exceeded args (mb_kl learner b \<theta> mb)"
  "exceeds_at args learner b \<theta> (mb # mbs) (Suc j)
   = exceeds_at args learner b (optimizer_step learner \<theta> (loss args learner b mb)) mbs j"
  by (simp_all add: exceeds_at_def)

lemma exceeds_at_append:
  "j < length xs \<Longrightarrow> exceeds_at args learner b \<theta> (xs @ ys) j = exceeds_at args learner b \<theta> xs j"
  "exceeds_at args learner b \<theta> (xs @ ys) (length xs + i)
   = exceeds_at args learner b (stepped args learner b \<theta> xs) ys i"
  by (simp_all add: exceeds_at_def nth_append)

lemma minibatch_body_cases:
  "kl_exceeded args (mb_kl learner b (params s) mb) \<Longrightarrow>
     snd (minibatch_body args learner b mb s) \<and>
     params (fst (minibatch_body args learner b mb s)) = params s \<and>
     n_updates (fst (minibatch_body args learner b mb s)) = n_updates s \<and>
     approx_kl_var (fst (minibatch_body args learner b mb s))
       = Some (mb_kl learner b (params s) mb)"
  "\<not> kl_exceeded args (mb_kl learner b (params s) mb) \<Longrightarrow>
     \<not> snd (minibatch_body args learner b mb s) \<and>
     params (fst (minibatch_body args learner b mb s))
       = optimizer_step learner (params s) (loss args learner b mb) \<and>
     n_updates (fst (minibatch_body args learner b mb s)) = Suc (n_updates s) \<and>
     approx_kl_var (fst (minibatch_body args learner b mb s))
       = Some (mb_kl learner b (params s) mb)"
  by (simp_all add: minibatch_body_def mb_kl_def Let_def)

text \<open>
  The inner loop applies a prefix of its minibatches: none of them exceeded the target
  when it was evaluated, and the loop stopped early exactly at one that did. Afterwards
  \<^verbatim>\<open>approx_kl\<close> is bound, and it exceeds the target exactly when the loop stopped early.
\<close>

lemma minibatch_loop_result:
  "\<exists>k \<le> length mbs.
     params (minibatch_loop args learner b mbs s) = stepped args learner b (params s) (take k mbs) \<and>
     n_updates (minibatch_loop args learner b mbs s) = n_updates s + k \<and>
     (\<forall>j < k. \<not> exceeds_at args learner b (params s) mbs j) \<and>
     (k < length mbs \<longrightarrow> exceeds_at args learner b (params s) mbs k) \<and>
     (mbs \<noteq> [] \<longrightarrow>
        (\<exists>kl. approx_kl_var (minibatch_loop args learner b mbs s) = Some kl \<and>
              kl_exceeded args kl = (k < length mbs)))"
proof (induction mbs arbitrary: s)
  case Nil
  show ?case by simp
next
  case (Cons mb mbs)
  obtain s' br where body: "minibatch_body args learner b mb s = (s', br)"
    by (cases "minibatch_body args learner b mb s")
  show ?case
  proof (cases "kl_exceeded args (mb_kl learner b (params s) mb)")
    case True
    from minibatch_body_cases(1) [OF True] body
    have "br" "params s' = params s" "n_updates s' = n_updates s"
      "approx_kl_var s' = Some (mb_kl learner b (params s) mb)" by simp_all
    then show ?thesis
      using True body by (intro exI [of _ 0]) (simp add: exceeds_at_Cons)
  next
    case False
    from minibatch_body_cases(2) [OF False] body
    have s': "\<not> br" "params s' = optimizer_step learner (params s) (loss args learner b mb)"
      "n_updates s' = Suc (n_updates s)"
      "approx_kl_var s' = Some (mb_kl learner b (params s) mb)" by simp_all
    have loop: "minibatch_loop args learner b (mb # mbs) s = minibatch_loop args learner b mbs s'"
      using body s'(1) by simp
    from Cons.IH [of s'] obtain k where k: "k \<le> length mbs"
      "params (minibatch_loop args learner b mbs s') = stepped args learner b (params s') (take k mbs)"
      "n_updates (minibatch_loop args learner b mbs s') = n_updates s' + k"
      "\<forall>j < k. \<not> exceeds_at args learner b (params s') mbs j"
      "k < length mbs \<longrightarrow> exceeds_at args learner b (params s') mbs k"
      "mbs \<noteq> [] \<longrightarrow>
        (\<exists>kl. approx_kl_var (minibatch_loop args learner b mbs s') = Some kl \<and>
              kl_exceeded args kl = (k < length mbs))"
      by blast
    have none: "\<forall>j < Suc k. \<not> exceeds_at args learner b (params s) (mb # mbs) j"
    proof (intro allI impI)
      fix j assume "j < Suc k"
      then show "\<not> exceeds_at args learner b (params s) (mb # mbs) j"
        using False k(4) s'(2) by (cases j) (simp_all add: exceeds_at_Cons)
    qed
    have kl: "\<exists>kl. approx_kl_var (minibatch_loop args learner b mbs s') = Some kl \<and>
              kl_exceeded args kl = (Suc k < length (mb # mbs))"
    proof (cases "mbs = []")
      case True
      then show ?thesis using s'(4) False k(1) by simp
    next
      case False
      then show ?thesis using k(6) by simp
    qed
    show ?thesis
      unfolding loop
      using k(1,2,3,5) s'(2,3) none kl
      by (intro exI [of _ "Suc k"]) (simp add: exceeds_at_Cons)
  qed
qed

lemma minibatches_nonempty:
  assumes "0 < minibatch_size args" "0 < batch_size args"
  shows "minibatches args b_inds \<noteq> []"
proof -
  have "minibatch_size args \<le> batch_size args + minibatch_size args - 1"
    using assms by simp
  then have "1 \<le> (batch_size args + minibatch_size args - 1) div minibatch_size args"
    using assms(1) by (simp add: Suc_le_eq div_greater_zero_iff)
  then show ?thesis
    by (simp add: minibatches_def range_starts_def)
qed

lemma schedule_Cons:
  "schedule args (b_inds # perms) = minibatches args b_inds @ schedule args perms"
  by (simp add: schedule_def)

text \<open>
  The two nested loops together apply a prefix of the schedule: an epoch that ran through
  leaves \<^verbatim>\<open>approx_kl\<close> at or below the target, so line 566 goes on to the next epoch; an
  epoch that stopped early leaves it above, so line 566 stops the epochs as well.
\<close>

lemma epoch_loop_result:
  assumes "0 < minibatch_size args" "0 < batch_size args"
  shows "\<exists>sF k. epoch_loop args learner b perms s = Inr sF \<and>
           k \<le> length (schedule args perms) \<and>
           params sF = stepped args learner b (params s) (take k (schedule args perms)) \<and>
           n_updates sF = n_updates s + k \<and>
           (\<forall>j < k. \<not> exceeds_at args learner b (params s) (schedule args perms) j) \<and>
           (k < length (schedule args perms) \<longrightarrow>
              exceeds_at args learner b (params s) (schedule args perms) k)"
proof (induction perms arbitrary: s)
  case Nil
  show ?case by (simp add: schedule_def)
next
  case (Cons p perms)
  let ?M = "minibatches args p"
  let ?S = "schedule args perms"
  let ?s' = "minibatch_loop args learner b ?M s"
  have M: "?M \<noteq> []" by (rule minibatches_nonempty [OF assms])
  from minibatch_loop_result [of ?M args learner b s] M
  obtain k1 kl where k1: "k1 \<le> length ?M"
    "params ?s' = stepped args learner b (params s) (take k1 ?M)"
    "n_updates ?s' = n_updates s + k1"
    "\<forall>j < k1. \<not> exceeds_at args learner b (params s) ?M j"
    "k1 < length ?M \<longrightarrow> exceeds_at args learner b (params s) ?M k1"
    "approx_kl_var ?s' = Some kl" "kl_exceeded args kl = (k1 < length ?M)"
    by blast
  show ?case
  proof (cases "k1 < length ?M")
    case True
    then have ex: "kl_exceeded args kl" using k1(7) by simp
    then obtain tk where tk: "target_kl args = Some tk" "kl > tk"
      by (auto simp: kl_exceeded_def split: option.splits)
    have res: "epoch_loop args learner b (p # perms) s = Inr ?s'"
      using assms(1) tk k1(6) by (simp add: Let_def)
    have "\<forall>j < k1. \<not> exceeds_at args learner b (params s) (?M @ ?S) j"
      using k1(4) True by (simp add: exceeds_at_append)
    moreover have "exceeds_at args learner b (params s) (?M @ ?S) k1"
      using k1(5) True by (simp add: exceeds_at_append)
    ultimately show ?thesis
      unfolding res schedule_Cons
      using True k1(2,3) by (intro exI [of _ ?s'] exI [of _ k1]) simp
  next
    case False
    then have full: "k1 = length ?M" using k1(1) by simp
    have nex: "\<not> kl_exceeded args kl" using k1(7) False by simp
    have res: "epoch_loop args learner b (p # perms) s = epoch_loop args learner b perms ?s'"
      using assms(1) nex k1(6)
      by (cases "target_kl args") (simp_all add: Let_def kl_exceeded_def)
    have ps': "params ?s' = stepped args learner b (params s) ?M"
      using k1(2) full by simp
    from Cons.IH [of ?s'] obtain sF k2 where k2:
      "epoch_loop args learner b perms ?s' = Inr sF" "k2 \<le> length ?S"
      "params sF = stepped args learner b (params ?s') (take k2 ?S)"
      "n_updates sF = n_updates ?s' + k2"
      "\<forall>j < k2. \<not> exceeds_at args learner b (params ?s') ?S j"
      "k2 < length ?S \<longrightarrow> exceeds_at args learner b (params ?s') ?S k2"
      by blast
    have none: "\<forall>j < length ?M + k2. \<not> exceeds_at args learner b (params s) (?M @ ?S) j"
    proof (intro allI impI)
      fix j assume j: "j < length ?M + k2"
      show "\<not> exceeds_at args learner b (params s) (?M @ ?S) j"
      proof (cases "j < length ?M")
        case True
        then show ?thesis using k1(4) full by (simp add: exceeds_at_append)
      next
        case False
        then obtain i where i: "j = length ?M + i" "i < k2"
          using j by (metis add_diff_inverse_nat nat_add_left_cancel_less)
        then show ?thesis
          using k2(5) ps' exceeds_at_append(2) [of args learner b "params s" ?M ?S i] by simp
      qed
    qed
    have stop: "length ?M + k2 < length (?M @ ?S) \<longrightarrow>
                exceeds_at args learner b (params s) (?M @ ?S) (length ?M + k2)"
      using k2(6) ps' exceeds_at_append(2) [of args learner b "params s" ?M ?S k2] by simp
    show ?thesis
      unfolding res schedule_Cons
      using k2(1,2,3,4) k1(3) full ps' none stop
      by (intro exI [of _ sF] exI [of _ "length ?M + k2"]) simp
  qed
qed

text \<open>
  Claim C9. With a target configured, the update returns with parameters that are the
  result of optimizer steps on the first \<open>k\<close> minibatches of the schedule and on no other:
  each of them had an approximate KL at or below the target when it was evaluated, just
  before its own step, and if \<open>k\<close> is not the whole schedule, the minibatch at position \<open>k\<close>
  is the first whose KL exceeded the target, and it got no step.
\<close>

theorem kl_check_before_step:
  assumes "0 < minibatch_size args" "0 < batch_size args" "target_kl args = Some tk"
  shows "\<exists>sF k. epoch_loop args learner b perms s = Inr sF \<and>
           k \<le> length (schedule args perms) \<and>
           params sF = stepped args learner b (params s) (take k (schedule args perms)) \<and>
           n_updates sF = n_updates s + k \<and>
           (\<forall>j < k. mb_kl learner b
                       (stepped args learner b (params s) (take j (schedule args perms)))
                       (schedule args perms ! j) \<le> tk) \<and>
           (k < length (schedule args perms) \<longrightarrow>
              mb_kl learner b (stepped args learner b (params s) (take k (schedule args perms)))
                (schedule args perms ! k) > tk)"
  using epoch_loop_result [OF assms(1,2), of learner b perms s] assms(3)
  by (simp add: exceeds_at_def kl_exceeded_def not_less)

lemma exp_one_minus_two: "2 / 10 < exp (1::real) - 1 - 1"
  using exp_lower_Taylor_quadratic [of "1::real"] by simp

lemmas update_eval = schedule_def minibatches_def range_starts_def mb_kl_def mb_logratio_def
  approx_kl_def logratio_def ratio_def gather_def mean_def stepped_def
  demo_update_args_def demo_learner_def demo_batch_def demo_update_start_def first_update_state_def default_args_def

lemma demo_schedule:
  "schedule demo_update_args demo_perms = [[0, Suc 0], [2, 3], [3, 2], [Suc 0, 0]]"
  by (simp add: update_eval demo_perms_def upt_rec)

lemma demo_kl:
  "mb_kl demo_learner demo_batch 0 [0, Suc 0] = 0"
  "mb_kl demo_learner demo_batch 1 [2, 3] = exp 1 - 1 - 1"
  by (simp_all add: update_eval)

lemma demo_step: "optimizer_step demo_learner \<theta> l = \<theta> + 1"
  by (simp add: demo_learner_def)

lemma demo_update_args_simps:
  "0 < minibatch_size demo_update_args" "0 < batch_size demo_update_args"
  "target_kl demo_update_args = Some (2 / 10)"
  by (simp_all add: demo_update_args_def default_args_def)

theorem kl_check_before_step_witness:
  "0 < minibatch_size demo_update_args \<and> 0 < batch_size demo_update_args \<and>
   target_kl demo_update_args = Some (2 / 10) \<and>
   (\<exists>sF k. epoch_loop demo_update_args demo_learner demo_batch demo_perms demo_update_start
           = Inr sF \<and> k \<le> 4 \<and> n_updates sF = k)"
  using kl_check_before_step [OF demo_update_args_simps, of demo_learner demo_batch
      demo_perms demo_update_start]
  by (simp add: demo_schedule demo_update_args_simps)
     (auto simp add: demo_update_start_def first_update_state_def)

subsection \<open>The variables read by the logging\<close>

lemma losses_bound_clipfracs [simp]:
  "losses_bound (s \<lparr> clipfracs := c \<rparr>) = losses_bound s"
  by (simp add: losses_bound_def)

lemma minibatch_body_bound:
  "losses_bound s \<Longrightarrow> losses_bound (fst (minibatch_body args learner b mb s))"
  "\<not> snd (minibatch_body args learner b mb s) \<Longrightarrow>
     losses_bound (fst (minibatch_body args learner b mb s))"
  "snd (minibatch_body args learner b mb s) \<Longrightarrow>
     n_updates (fst (minibatch_body args learner b mb s)) = n_updates s"
  "old_approx_kl_var (fst (minibatch_body args learner b mb s)) \<noteq> None"
  "approx_kl_var (fst (minibatch_body args learner b mb s)) \<noteq> None"
  by (auto simp add: minibatch_body_def losses_bound_def Let_def split: if_splits)

lemma minibatch_loop_keeps_bound:
  "losses_bound s \<Longrightarrow> losses_bound (minibatch_loop args learner b mbs s)"
proof (induction mbs arbitrary: s)
  case Nil
  then show ?case by simp
next
  case (Cons mb mbs)
  obtain s' br where body: "minibatch_body args learner b mb s = (s', br)"
    by (cases "minibatch_body args learner b mb s")
  with minibatch_body_bound(1) [OF Cons.prems, of args learner b mb]
  have "losses_bound s'" by simp
  then show ?case using body Cons.IH [of s'] by (cases br) simp_all
qed

lemma minibatch_loop_step_bound:
  "n_updates s < n_updates (minibatch_loop args learner b mbs s) \<Longrightarrow>
   losses_bound (minibatch_loop args learner b mbs s)"
proof (cases mbs)
  case Nil
  assume "n_updates s < n_updates (minibatch_loop args learner b mbs s)"
  with Nil show ?thesis by simp
next
  case (Cons mb rest)
  assume less: "n_updates s < n_updates (minibatch_loop args learner b mbs s)"
  obtain s' br where body: "minibatch_body args learner b mb s = (s', br)"
    by (cases "minibatch_body args learner b mb s")
  show ?thesis
  proof (cases br)
    case True
    then have "n_updates s' = n_updates s"
      using minibatch_body_bound(3) [of args learner b mb s] body by simp
    then show ?thesis using less Cons body True by simp
  next
    case False
    then have "losses_bound s'"
      using minibatch_body_bound(2) [of args learner b mb s] body by simp
    then show ?thesis
      using Cons body False minibatch_loop_keeps_bound [of s' args learner b rest] by simp
  qed
qed

lemma minibatch_loop_kl_bound:
  "mbs \<noteq> [] \<or> (old_approx_kl_var s \<noteq> None \<and> approx_kl_var s \<noteq> None) \<Longrightarrow>
   old_approx_kl_var (minibatch_loop args learner b mbs s) \<noteq> None \<and>
   approx_kl_var (minibatch_loop args learner b mbs s) \<noteq> None"
proof (induction mbs arbitrary: s)
  case Nil
  then show ?case by simp
next
  case (Cons mb mbs)
  obtain s' br where body: "minibatch_body args learner b mb s = (s', br)"
    by (cases "minibatch_body args learner b mb s")
  with minibatch_body_bound(4,5) [of args learner b mb s]
  have "old_approx_kl_var s' \<noteq> None \<and> approx_kl_var s' \<noteq> None" by simp
  then show ?case using body Cons.IH [of s'] by (cases br) simp_all
qed

lemma minibatch_loop_n_updates: "n_updates s \<le> n_updates (minibatch_loop args learner b mbs s)"
  using minibatch_loop_result [of mbs args learner b s] by auto

lemma epoch_loop_keeps_bound:
  "epoch_loop args learner b perms s = Inr sF \<Longrightarrow> losses_bound s \<Longrightarrow> losses_bound sF"
proof (induction perms arbitrary: s)
  case Nil
  then show ?case by simp
next
  case (Cons p perms)
  let ?s' = "minibatch_loop args learner b (minibatches args p) s"
  have b': "losses_bound ?s'" by (rule minibatch_loop_keeps_bound [OF Cons.prems(2)])
  from Cons.prems(1) have "sF = ?s' \<or> epoch_loop args learner b perms ?s' = Inr sF"
    by (auto simp: Let_def split: if_splits option.splits)
  then show ?case using b' Cons.IH [of ?s'] by auto
qed

lemma epoch_loop_step_bound:
  "epoch_loop args learner b perms s = Inr sF \<Longrightarrow> n_updates s < n_updates sF \<Longrightarrow>
   losses_bound sF"
proof (induction perms arbitrary: s)
  case Nil
  then show ?case by simp
next
  case (Cons p perms)
  let ?s' = "minibatch_loop args learner b (minibatches args p) s"
  from Cons.prems(1) have r: "sF = ?s' \<or> epoch_loop args learner b perms ?s' = Inr sF"
    by (auto simp: Let_def split: if_splits option.splits)
  show ?case
  proof (cases "n_updates s < n_updates ?s'")
    case True
    then have "losses_bound ?s'" by (rule minibatch_loop_step_bound)
    then show ?thesis using r epoch_loop_keeps_bound [of args learner b perms ?s' sF] by auto
  next
    case False
    then have "n_updates ?s' = n_updates s"
      using minibatch_loop_n_updates [of s args learner b "minibatches args p"] by simp
    then show ?thesis using r Cons.prems(2) Cons.IH [of ?s'] by auto
  qed
qed

lemma epoch_loop_kl_bound:
  assumes "0 < minibatch_size args" "0 < batch_size args"
  shows "epoch_loop args learner b perms s = Inr sF \<Longrightarrow>
         perms \<noteq> [] \<or> (old_approx_kl_var s \<noteq> None \<and> approx_kl_var s \<noteq> None) \<Longrightarrow>
         old_approx_kl_var sF \<noteq> None \<and> approx_kl_var sF \<noteq> None"
proof (induction perms arbitrary: s)
  case Nil
  then show ?case by simp
next
  case (Cons p perms)
  let ?s' = "minibatch_loop args learner b (minibatches args p) s"
  have "minibatches args p \<noteq> []" by (rule minibatches_nonempty [OF assms])
  then have b': "old_approx_kl_var ?s' \<noteq> None \<and> approx_kl_var ?s' \<noteq> None"
    using minibatch_loop_kl_bound [of "minibatches args p" s args learner b] by simp
  from Cons.prems(1) have "sF = ?s' \<or> epoch_loop args learner b perms ?s' = Inr sF"
    by (auto simp: Let_def split: if_splits option.splits)
  then show ?case using b' Cons.IH [of ?s'] by auto
qed

lemma log_losses_bound:
  assumes "losses_bound s" "old_approx_kl_var s \<noteq> None \<and> approx_kl_var s \<noteq> None"
  shows "\<exists>entries. log_losses s b = Inr entries"
  using assms by (auto simp: log_losses_def losses_bound_def Let_def)

lemma log_losses_unbound:
  "\<not> losses_bound s \<Longrightarrow> log_losses s b = Inl NameError"
  by (auto simp: log_losses_def losses_bound_def Let_def split: option.splits)

text \<open>
  With a target configured, let the minibatch at position \<open>k\<close> of the schedule be the first
  whose approximate KL exceeds the target. Then the update loops return with exactly \<open>k\<close>
  optimizer steps made, on the minibatches before position \<open>k\<close>: the rest of that epoch and
  all later epochs are skipped.
\<close>

lemma kl_early_stop_updates:
  assumes "0 < minibatch_size args" "0 < batch_size args" "target_kl args = Some tk"
    and "k < length (schedule args perms)"
    and "\<forall>j < k. mb_kl learner b
                    (stepped args learner b (params s) (take j (schedule args perms)))
                    (schedule args perms ! j) \<le> tk"
    and "mb_kl learner b (stepped args learner b (params s) (take k (schedule args perms)))
           (schedule args perms ! k) > tk"
  shows "\<exists>sF. epoch_loop args learner b perms s = Inr sF \<and>
           params sF = stepped args learner b (params s) (take k (schedule args perms)) \<and>
           n_updates sF = n_updates s + k"
proof -
  from epoch_loop_result [OF assms(1,2), of learner b perms s]
  obtain sF k' where r: "epoch_loop args learner b perms s = Inr sF"
    "k' \<le> length (schedule args perms)"
    "params sF = stepped args learner b (params s) (take k' (schedule args perms))"
    "n_updates sF = n_updates s + k'"
    "\<forall>j < k'. \<not> exceeds_at args learner b (params s) (schedule args perms) j"
    "k' < length (schedule args perms) \<longrightarrow>
       exceeds_at args learner b (params s) (schedule args perms) k'"
    by blast
  have ex: "exceeds_at args learner b (params s) (schedule args perms) k"
    using assms(3,6) by (simp add: exceeds_at_def kl_exceeded_def)
  have nex: "\<forall>j < k. \<not> exceeds_at args learner b (params s) (schedule args perms) j"
    using assms(3,5) by (simp add: exceeds_at_def kl_exceeded_def not_less)
  have "k' = k"
  proof (rule ccontr)
    assume "k' \<noteq> k"
    then consider "k' < k" | "k < k'" by linarith
    then show False
    proof cases
      case 1
      then show ?thesis using r(6) nex assms(4) by simp
    next
      case 2
      then show ?thesis using r(5) ex by simp
    qed
  qed
  then show ?thesis using r(1,3,4) by blast
qed

text \<open>
  In that case the iteration also gets through its logging, and the next iteration
  follows, if an optimizer step has bound the loss variables: in this iteration (\<open>0 < k\<close>)
  or in an earlier one.
\<close>

lemma kl_early_stop_continues:
  assumes "0 < minibatch_size args" "0 < batch_size args" "target_kl args = Some tk"
    and "k < length (schedule args perms)"
    and "\<forall>j < k. mb_kl learner b
                    (stepped args learner b (params s) (take j (schedule args perms)))
                    (schedule args perms ! j) \<le> tk"
    and "mb_kl learner b (stepped args learner b (params s) (take k (schedule args perms)))
           (schedule args perms ! k) > tk"
    and "0 < k \<or> losses_bound s"
  shows "\<exists>sF entries. update_and_log args learner b perms s = Inr (sF, entries) \<and>
           params sF = stepped args learner b (params s) (take k (schedule args perms)) \<and>
           n_updates sF = n_updates s + k"
proof -
  let ?s = "s \<lparr> clipfracs := [] \<rparr>"
  from kl_early_stop_updates [of args tk k perms learner b ?s] assms(1-6)
  obtain sF where r: "epoch_loop args learner b perms ?s = Inr sF"
    "params sF = stepped args learner b (params s) (take k (schedule args perms))"
    "n_updates sF = n_updates s + k"
    by auto
  from assms(4) have "perms \<noteq> []" by (auto simp: schedule_def)
  then have kl: "old_approx_kl_var sF \<noteq> None \<and> approx_kl_var sF \<noteq> None"
    using epoch_loop_kl_bound [OF assms(1,2) r(1)] by simp
  have "losses_bound sF"
  proof (cases "0 < k")
    case True
    then have "n_updates ?s < n_updates sF" using r(3) by simp
    then show ?thesis by (rule epoch_loop_step_bound [OF r(1)])
  next
    case False
    then have "losses_bound ?s" using assms(7) by simp
    then show ?thesis by (rule epoch_loop_keeps_bound [OF r(1)])
  qed
  from log_losses_bound [OF this kl, of b] obtain entries where
    "log_losses sF b = Inr entries" by blast
  then show ?thesis using r by (simp add: update_and_log_def)
qed



lemma kl_early_stop_demo:
  "\<exists>sF entries. update_and_log demo_update_args demo_learner demo_batch demo_perms
       demo_update_start = Inr (sF, entries) \<and> params sF = 1 \<and> n_updates sF = 1"
proof -
  have k: "1 < length (schedule demo_update_args demo_perms)"
    by (simp add: demo_schedule)
  have before: "\<forall>j < 1. mb_kl demo_learner demo_batch
                    (stepped demo_update_args demo_learner demo_batch (params demo_update_start)
                       (take j (schedule demo_update_args demo_perms)))
                    (schedule demo_update_args demo_perms ! j) \<le> 2 / 10"
    by (simp add: demo_schedule demo_kl demo_update_start_def first_update_state_def)
  have at: "mb_kl demo_learner demo_batch
              (stepped demo_update_args demo_learner demo_batch (params demo_update_start)
                 (take 1 (schedule demo_update_args demo_perms)))
              (schedule demo_update_args demo_perms ! 1) > 2 / 10"
    using exp_one_minus_two
    by (simp add: demo_schedule demo_kl demo_update_start_def first_update_state_def demo_step)
  from kl_early_stop_continues [OF demo_update_args_simps k before at]
  show ?thesis
    by (simp add: demo_schedule demo_update_start_def first_update_state_def demo_step)
qed

subsection \<open>The action flattener\<close>

lemma dict_set_notin: "k \<notin> fst ` set d \<Longrightarrow> dict_set d k v = d @ [(k, v)]"
  by (induction d k v rule: dict_set.induct) auto

lemma map_fst_col_ranges: "map fst (col_ranges off sp) = map fst sp"
  by (induction off sp rule: col_ranges.induct) simp_all

lemma length_col_ranges [simp]: "length (col_ranges off sp) = length sp"
  using map_fst_col_ranges [of off sp] by (metis length_map)

text \<open>What the loop returns on a batch: for every key its column range of every row.\<close>

lemma unflatten_items_Mat:
  assumes "list_all (\<lambda>(k, shape). length shape = 1) sp" "distinct (map fst sp)"
    "fst ` set sp \<inter> fst ` set acc = {}"
  shows "unflatten_items sp (Mat rows) off off acc
         = Inr (acc @ map (\<lambda>(k, lo, hi). (k, map (\<lambda>row. take (hi - lo) (drop lo row)) rows))
                        (col_ranges off sp))"
  using assms
proof (induction sp arbitrary: off acc)
  case Nil
  show ?case by simp
next
  case (Cons ks sp)
  obtain k shape where ks: "ks = (k, shape)" by (cases ks)
  then obtain d where shape: "shape = [d]"
    using Cons.prems(1) by (cases shape) auto
  let ?m = "map (\<lambda>row. take d (drop off row)) rows"
  have notin: "k \<notin> fst ` set acc" using Cons.prems(3) ks by auto
  have disj: "fst ` set sp \<inter> fst ` set (acc @ [(k, ?m)]) = {}"
    using Cons.prems(2,3) ks by auto
  have "unflatten_items (ks # sp) (Mat rows) off off acc
        = unflatten_items sp (Mat rows) (off + d) (off + d) (acc @ [(k, ?m)])"
    by (simp add: ks shape slice_cols_def dict_set_notin [OF notin])
  also have "\<dots> = Inr ((acc @ [(k, ?m)])
                 @ map (\<lambda>(k, lo, hi). (k, map (\<lambda>row. take (hi - lo) (drop lo row)) rows))
                     (col_ranges (off + d) sp))"
    using Cons.IH [OF _ _ disj] Cons.prems(1,2) by simp
  finally show ?case by (simp add: ks shape)
qed

lemma concat_slices:
  "concat (map (\<lambda>(k, lo, hi). take (hi - lo) (drop lo row)) (col_ranges off sp))
   = take (sum_list (map (\<lambda>(k, shape). prod_list shape) sp)) (drop off row)"
proof (induction sp arbitrary: off)
  case Nil
  show ?case by simp
next
  case (Cons ks sp)
  obtain k shape where ks: "ks = (k, shape)" by (cases ks)
  show ?case
    by (simp add: ks Cons.IH take_add add.commute)
qed

lemma slice_concat:
  assumes "length bs = length sp"
    "\<forall>p < length sp. length (bs ! p) = prod_list (snd (sp ! p))"
  shows "map (\<lambda>(k, lo, hi). take (hi - lo) (drop lo (pre @ concat bs)))
           (col_ranges (length pre) sp) = bs"
  using assms
proof (induction sp arbitrary: pre bs)
  case Nil
  then show ?case by simp
next
  case (Cons ks sp)
  obtain k shape where ks: "ks = (k, shape)" by (cases ks)
  obtain b bs' where bs: "bs = b # bs'" using Cons.prems(1) by (cases bs) auto
  have lb: "length b = prod_list shape" using Cons.prems(2) bs ks by auto
  have rest: "\<forall>p < length sp. length (bs' ! p) = prod_list (snd (sp ! p))"
    using Cons.prems(2) bs by auto
  have "map (\<lambda>(k, lo, hi). take (hi - lo) (drop lo ((pre @ b) @ concat bs')))
           (col_ranges (length (pre @ b)) sp) = bs'"
    using Cons.IH [of bs' "pre @ b"] Cons.prems(1) bs rest by simp
  then show ?case
    by (simp add: ks bs lb)
qed

lemma action_Mat:
  assumes "flat_dict_space sp"
  shows "action (init_wrapper n sp) (Mat rows)
         = Inr (map (\<lambda>(k, lo, hi). (k, map (\<lambda>row. take (hi - lo) (drop lo row)) rows))
                  (col_ranges 0 sp))"
  using assms unflatten_items_Mat [of sp "[]" rows 0]
  by (simp add: action_def init_wrapper_def tensor_shape_def flatten_space_def flat_dict_space_def)

lemma action_Vec:
  assumes "length v = sum_list (map (\<lambda>(k, shape). prod_list shape) sp)"
  shows "action (init_wrapper 1 sp) (Vec v) = action (init_wrapper 1 sp) (Mat [v])"
  using assms
  by (simp add: action_def init_wrapper_def tensor_shape_def flatten_space_def batch_def)

lemma fitsD:
  assumes "fits sp n nested" "p < length sp"
  shows "length nested = length sp" and "fst (nested ! p) = fst (sp ! p)"
    and "length (snd (nested ! p)) = n"
    and "i < n \<Longrightarrow> length (snd (nested ! p) ! i) = prod_list (snd (sp ! p))"
proof -
  have m: "map fst nested = map fst sp" using assms(1) by (simp add: fits_def)
  then show len: "length nested = length sp" by (metis length_map)
  show "fst (nested ! p) = fst (sp ! p)"
    using m len assms(2) by (metis nth_map)
  define P :: "(string \<times> nat list) \<times> (string \<times> real list list) \<Rightarrow> bool"
    where "P = (\<lambda>((k, shape), (k', m)).
                 length m = n \<and> list_all (\<lambda>row. length row = prod_list shape) m)"
  have "list_all P (zip sp nested)"
    using assms(1) by (simp add: fits_def P_def)
  moreover have "p < length (zip sp nested)" using assms(2) len by simp
  ultimately have "P (zip sp nested ! p)"
    by (metis list_all_length)
  then have a: "length (snd (nested ! p)) = n"
    and b: "list_all (\<lambda>row. length row = prod_list (snd (sp ! p))) (snd (nested ! p))"
    using assms(2) len by (simp_all add: P_def split_beta)
  show "length (snd (nested ! p)) = n" by (rule a)
  show "i < n \<Longrightarrow> length (snd (nested ! p) ! i) = prod_list (snd (sp ! p))"
    using a b by (simp add: list_all_length)
qed

text \<open>With the declared keys in the declared order, flattening reads the components by position.\<close>

lemma flatten_rows_positional:
  assumes "distinct (map fst sp)" "map fst nested = map fst sp"
  shows "map (\<lambda>(k, shape). case map_of nested k of None \<Rightarrow> [] | Some m \<Rightarrow> m ! i) sp
         = map (\<lambda>(k, m). m ! i) nested"
proof (rule nth_equalityI)
  have len: "length nested = length sp" using assms(2) by (metis length_map)
  then show "length (map (\<lambda>(k, shape). case map_of nested k of None \<Rightarrow> [] | Some m \<Rightarrow> m ! i) sp)
        = length (map (\<lambda>(k, m). m ! i) nested)" by simp
  fix p assume "p < length (map (\<lambda>(k, shape). case map_of nested k of None \<Rightarrow> []
                                                 | Some m \<Rightarrow> m ! i) sp)"
  then have p: "p < length sp" by simp
  have k: "fst (nested ! p) = fst (sp ! p)" using assms(2) p len by (metis nth_map)
  have "distinct (map fst nested)" using assms by simp
  moreover have "(fst (sp ! p), snd (nested ! p)) \<in> set nested"
    using p len k by (metis nth_mem prod.collapse)
  ultimately have "map_of nested (fst (sp ! p)) = Some (snd (nested ! p))"
    by simp
  then show "map (\<lambda>(k, shape). case map_of nested k of None \<Rightarrow> [] | Some m \<Rightarrow> m ! i) sp ! p
        = map (\<lambda>(k, m). m ! i) nested ! p"
    using p len by (simp add: split_beta)
qed

lemma roundtrip_nested:
  assumes "flat_dict_space sp" "fits sp n nested"
  shows "action (init_wrapper ne sp) (flatten_action sp n nested) = Inr nested"
proof -
  have d: "distinct (map fst sp)" using assms(1) by (simp add: flat_dict_space_def)
  have keys: "map fst nested = map fst sp" using assms(2) by (simp add: fits_def)
  have len: "length nested = length sp" using keys by (metis length_map)
  let ?R = "\<lambda>i. concat (map (\<lambda>(k, m). m ! i) nested)"
  have flat: "flatten_action sp n nested = Mat (map ?R [0..<n])"
    by (simp add: flatten_action_def flatten_rows_positional [OF d keys])
  have slice: "map (\<lambda>(k, lo, hi). take (hi - lo) (drop lo (?R i))) (col_ranges 0 sp)
               = map (\<lambda>(k, m). m ! i) nested" if i: "i < n" for i
  proof -
    have "\<forall>p < length sp. length (map (\<lambda>(k, m). m ! i) nested ! p) = prod_list (snd (sp ! p))"
      using fitsD(4) [OF assms(2) _ i] len by (simp add: split_beta)
    then show ?thesis
      using slice_concat [of "map (\<lambda>(k, m). m ! i) nested" sp "[]"] len by simp
  qed
  have "map (\<lambda>(k, lo, hi). (k, map (\<lambda>row. take (hi - lo) (drop lo row)) (map ?R [0..<n])))
          (col_ranges 0 sp) = nested"
  proof (rule nth_equalityI)
    show "length (map (\<lambda>(k, lo, hi). (k, map (\<lambda>row. take (hi - lo) (drop lo row))
                                           (map ?R [0..<n]))) (col_ranges 0 sp))
          = length nested" using len by simp
    fix p assume "p < length (map (\<lambda>(k, lo, hi). (k, map (\<lambda>row. take (hi - lo) (drop lo row))
                                           (map ?R [0..<n]))) (col_ranges 0 sp))"
    then have p: "p < length sp" by simp
    obtain k lo hi where c: "col_ranges 0 sp ! p = (k, lo, hi)" by (cases "col_ranges 0 sp ! p")
    have "k = fst (sp ! p)"
      using map_fst_col_ranges [of 0 sp] c p by (metis fst_conv length_col_ranges nth_map)
    then have k: "k = fst (nested ! p)" using fitsD(2) [OF assms(2) p] by simp
    have "map (\<lambda>row. take (hi - lo) (drop lo row)) (map ?R [0..<n]) = snd (nested ! p)"
    proof (rule nth_equalityI)
      show "length (map (\<lambda>row. take (hi - lo) (drop lo row)) (map ?R [0..<n]))
            = length (snd (nested ! p))"
        using fitsD(3) [OF assms(2) p] by simp
      fix i assume "i < length (map (\<lambda>row. take (hi - lo) (drop lo row)) (map ?R [0..<n]))"
      then have i: "i < n" by simp
      have "map (\<lambda>(k, lo, hi). take (hi - lo) (drop lo (?R i))) (col_ranges 0 sp) ! p
            = map (\<lambda>(k, m). m ! i) nested ! p"
        using slice [OF i] by simp
      then have "take (hi - lo) (drop lo (?R i)) = snd (nested ! p) ! i"
        using p len c by (simp add: split_beta)
      then show "map (\<lambda>row. take (hi - lo) (drop lo row)) (map ?R [0..<n]) ! i
                 = snd (nested ! p) ! i"
        using i by simp
    qed
    moreover have "nested ! p = (k, snd (nested ! p))" using k by simp
    ultimately show "map (\<lambda>(k, lo, hi). (k, map (\<lambda>row. take (hi - lo) (drop lo row))
                                         (map ?R [0..<n]))) (col_ranges 0 sp) ! p = nested ! p"
      using p by (simp add: c)
  qed
  then show ?thesis
    by (simp add: flat action_Mat [OF assms(1)])
qed

lemma roundtrip_flat:
  assumes "flat_dict_space sp"
    "list_all (\<lambda>row. length row = sum_list (map (\<lambda>(k, shape). prod_list shape) sp)) rows"
  shows "\<exists>nested. action (init_wrapper ne sp) (Mat rows) = Inr nested \<and>
           flatten_action sp (length rows) nested = Mat rows"
proof -
  let ?nested = "map (\<lambda>(k, lo, hi). (k, map (\<lambda>row. take (hi - lo) (drop lo row)) rows))
                   (col_ranges 0 sp)"
  have d: "distinct (map fst sp)" using assms(1) by (simp add: flat_dict_space_def)
  have keys: "map fst ?nested = map fst sp"
    using map_fst_col_ranges [of 0 sp] by (simp add: comp_def split_beta)
  have "map (\<lambda>i. concat (map (\<lambda>(k, m). m ! i) ?nested)) [0..<length rows] = rows"
  proof (rule nth_equalityI)
    show "length (map (\<lambda>i. concat (map (\<lambda>(k, m). m ! i) ?nested)) [0..<length rows])
          = length rows" by simp
    fix i assume "i < length (map (\<lambda>i. concat (map (\<lambda>(k, m). m ! i) ?nested)) [0..<length rows])"
    then have i: "i < length rows" by simp
    have "map (\<lambda>(k, m). m ! i) ?nested
          = map (\<lambda>(k, lo, hi). take (hi - lo) (drop lo (rows ! i))) (col_ranges 0 sp)"
      using i by (simp add: comp_def split_beta)
    then have "concat (map (\<lambda>(k, m). m ! i) ?nested)
               = take (sum_list (map (\<lambda>(k, shape). prod_list shape) sp)) (drop 0 (rows ! i))"
      by (simp only: concat_slices)
    also have "\<dots> = rows ! i"
      using assms(2) i by (simp add: list_all_length)
    finally show "map (\<lambda>i. concat (map (\<lambda>(k, m). m ! i) ?nested)) [0..<length rows] ! i
                  = rows ! i"
      using i by simp
  qed
  then have "flatten_action sp (length rows) ?nested = Mat rows"
    by (simp only: flatten_action_def flatten_rows_positional [OF d keys])
  then show ?thesis
    using action_Mat [OF assms(1), of ne rows] by blast
qed

lemma action_keys:
  assumes "flat_dict_space sp" "action (init_wrapper ne sp) a = Inr r"
  shows "map fst r = map fst sp"
proof -
  have mat: "map fst r' = map fst sp" if "action (init_wrapper ne sp) (Mat rows) = Inr r'"
    for rows r'
    using that action_Mat [OF assms(1), of ne rows] map_fst_col_ranges [of 0 sp]
    by (auto simp add: comp_def split_beta)
  show ?thesis
  proof (cases a)
    case (Mat rows)
    then show ?thesis using assms(2) mat by simp
  next
    case (Vec v)
    show ?thesis
    proof (cases "ne = 1 \<and> [length v] = flatten_space sp")
      case True
      then have "action (init_wrapper ne sp) a = action (init_wrapper ne sp) (Mat [v])"
        using Vec by (simp add: action_def init_wrapper_def tensor_shape_def batch_def)
      then show ?thesis using assms(2) mat by simp
    next
      case False
      then have un: "action (init_wrapper ne sp) a = unflatten_items sp (Vec v) 0 0 []"
        using Vec by (auto simp add: action_def init_wrapper_def tensor_shape_def)
      show ?thesis
      proof (cases sp)
        case Nil
        then show ?thesis using un assms(2) by simp
      next
        case (Cons ks rest)
        obtain k shape where ks: "ks = (k, shape)" by (cases ks)
        have "unflatten_items sp (Vec v) 0 0 [] = Inl IndexError"
          by (simp add: Cons ks slice_cols_def split: list.split)
        then show ?thesis using un assms(2) by simp
      qed
    qed
  qed
qed

text \<open>
  Claim C4, as amended. Let every declared sub-space have one axis and the keys be
  distinct, as those of a dictionary are. Then, for a wrapper made for any number of
  environments and any batch size \<open>n\<close>: unflattening the flattened nested action gives the
  nested action back; unflattening a batch of flat actions and flattening the result gives
  the batch back; unflattening gives every key, in declared order, the contiguous column
  range of its sub-space's width; whatever action is unflattened, the result has the
  declared keys in the declared order; and with one environment an unbatched flat action
  is treated as the batch of that one row.
\<close>

theorem action_round_trip:
  assumes "flat_dict_space sp"
  shows "(fits sp n nested \<longrightarrow>
            action (init_wrapper ne sp) (flatten_action sp n nested) = Inr nested) \<and>
         (list_all (\<lambda>row. length row = sum_list (map (\<lambda>(k, shape). prod_list shape) sp)) rows
            \<longrightarrow> (\<exists>r. action (init_wrapper ne sp) (Mat rows) = Inr r \<and>
                     flatten_action sp (length rows) r = Mat rows)) \<and>
         action (init_wrapper ne sp) (Mat rows)
           = Inr (map (\<lambda>(k, lo, hi). (k, map (\<lambda>row. take (hi - lo) (drop lo row)) rows))
                    (col_ranges 0 sp)) \<and>
         (\<forall>a r. action (init_wrapper ne sp) a = Inr r \<longrightarrow> map fst r = map fst sp) \<and>
         (length v = sum_list (map (\<lambda>(k, shape). prod_list shape) sp) \<longrightarrow>
            action (init_wrapper 1 sp) (Vec v) = action (init_wrapper 1 sp) (Mat [v]))"
  using roundtrip_nested [OF assms, of n nested ne] roundtrip_flat [OF assms, of rows ne]
    action_Mat [OF assms, of ne rows] action_keys [OF assms, of ne] action_Vec [of v sp]
  by blast

lemmas action_eval = action_def init_wrapper_def flatten_space_def tensor_shape_def batch_def
  slice_cols_def flatten_action_def flat_dict_space_def fits_def two_arms_def two_arms_action_def
  grid_space_def grid_action_def

theorem action_round_trip_witness:
  "flat_dict_space two_arms \<and> fits two_arms 2 two_arms_action \<and>
   flatten_action two_arms 2 two_arms_action
     = Mat [[1, 2, 3, 4, 5, 6, 7], [11, 12, 13, 14, 15, 16, 17]] \<and>
   action (init_wrapper 2 two_arms) (Mat [[1, 2, 3, 4, 5, 6, 7], [11, 12, 13, 14, 15, 16, 17]])
     = Inr two_arms_action \<and>
   col_ranges 0 two_arms = [(''panda-0'', 0, 3), (''panda-1'', 3, 7)] \<and>
   action (init_wrapper 1 two_arms) (Vec [1, 2, 3, 4, 5, 6, 7])
     = Inr [(''panda-0'', [[1, 2, 3]]), (''panda-1'', [[4, 5, 6, 7]])]"
  using action_round_trip [of two_arms 2 two_arms_action 2
      "[[1, 2, 3, 4, 5, 6, 7], [11, 12, 13, 14, 15, 16, 17]]" "[1, 2, 3, 4, 5, 6, 7]"]
  by (simp add: action_eval upt_rec)

text \<open>
  The claim as the specification states it fails for a declared sub-space of more than one
  axis: the slice is as wide as the first axis (\<^verbatim>\<open>space.shape[0]\<close>), not as the sub-space's
  dimension. For the shape \<open>(2, 3)\<close> the flat action has six columns, the component comes
  back with two.
\<close>

theorem action_round_trip_two_axes:
  "fits grid_space 1 grid_action \<and>
   col_ranges 0 grid_space = [(''grid'', 0, 6)] \<and>
   flatten_action grid_space 1 grid_action = Mat [[1, 2, 3, 4, 5, 6]] \<and>
   action (init_wrapper 1 grid_space) (flatten_action grid_space 1 grid_action)
     = Inr [(''grid'', [[1, 2]])] \<and>
   action (init_wrapper 1 grid_space) (flatten_action grid_space 1 grid_action)
     \<noteq> Inr grid_action"
  by (simp add: action_eval upt_rec)

subsection \<open>The observation flattener\<close>

lemma collect_images_ok:
  "list_all (camera_ok rgb_only sh) cams \<Longrightarrow>
   collect_images rgb_only cams = Inr (concat (map (camera_images rgb_only) cams))"
  by (induction cams)
     (auto simp: camera_ok_def camera_images_def split: option.splits)

lemma collect_images_lacks_rgb:
  "list_ex lacks_rgb cams \<Longrightarrow> collect_images rgb_only cams = Inl KeyError"
proof (induction cams)
  case Nil
  then show ?case by simp
next
  case (Cons cam cams)
  show ?case
  proof (cases "lacks_rgb cam")
    case True
    then show ?thesis by (simp add: lacks_rgb_def)
  next
    case False
    with Cons have "collect_images rgb_only cams = Inl KeyError" by simp
    then show ?thesis by (cases rgb_only) (simp_all split: option.splits)
  qed
qed

lemma camera_images_ok:
  "camera_ok rgb_only sh cam \<Longrightarrow> list_all (image_ok sh) (camera_images rgb_only cam)"
  by (auto simp: camera_ok_def camera_images_def split: option.splits)

lemma camera_images_nonempty: "camera_images rgb_only cam \<noteq> []"
  by (simp add: camera_images_def)

lemma camera_images_pixel:
  "camera_ok rgb_only sh cam \<Longrightarrow>
   concat (map (\<lambda>im. pixels im ! i) (camera_images rgb_only cam)) = camera_pixel rgb_only cam i"
  by (auto simp: camera_ok_def camera_images_def camera_pixel_def split: option.splits)

lemma images_pixel:
  "list_all (camera_ok rgb_only sh) cams \<Longrightarrow>
   concat (map (\<lambda>im. pixels im ! i) (concat (map (camera_images rgb_only) cams)))
   = concat (map (\<lambda>cam. camera_pixel rgb_only cam i) cams)"
proof (induction cams)
  case Nil
  then show ?case by simp
next
  case (Cons cam cams)
  then have "camera_ok rgb_only sh cam" and "list_all (camera_ok rgb_only sh) cams" by simp_all
  then show ?case using Cons.IH camera_images_pixel [of rgb_only sh cam i] by simp
qed

lemma images_ok:
  "list_all (camera_ok rgb_only sh) cams \<Longrightarrow>
   list_all (image_ok sh) (concat (map (camera_images rgb_only) cams))"
  by (induction cams) (simp_all add: camera_images_ok)

lemma concat_last_ok:
  assumes "images \<noteq> []" "list_all (image_ok sh) images"
  shows "concat_last images =
         Inr \<lparr> lead = sh,
               pixels = map (\<lambda>i. concat (map (\<lambda>im. pixels im ! i) images)) [0..<prod_list sh] \<rparr>"
proof -
  from assms obtain im ims where eq: "images = im # ims" by (cases images) auto
  with assms(2) have l: "lead im = sh" and a: "list_all (image_ok sh) ims"
    by (simp_all add: image_ok_def)
  from a have "list_all (\<lambda>im'. lead im' = lead im) ims"
    unfolding l by (induction ims) (simp_all add: image_ok_def)
  then show ?thesis unfolding concat_last_def eq by (simp add: l)
qed

lemma stack_ok:
  assumes "cams \<noteq> []" "list_all (camera_ok rgb_only sh) cams"
  shows "concat_last (concat (map (camera_images rgb_only) cams)) = Inr (stacked_image rgb_only sh cams)"
proof -
  from assms(1) have "concat (map (camera_images rgb_only) cams) \<noteq> []"
    by (cases cams) (simp_all add: camera_images_nonempty)
  then show ?thesis
    using concat_last_ok [OF _ images_ok [OF assms(2)]] images_pixel [OF assms(2)]
    by (simp add: stacked_image_def)
qed

text \<open>
  Claim C6, with the conditions under which the flattener returns. Let the observation
  hold \<^verbatim>\<open>sensor_param\<close> and a \<^verbatim>\<open>sensor_data\<close> of one or more cameras, every camera with an
  \<^verbatim>\<open>rgb\<close> image and, unless \<open>rgb_only\<close>, a \<^verbatim>\<open>depth\<close> image, all images with the same
  leading axes, and let \<^verbatim>\<open>flatten_state_dict\<close> return on the remaining items. Then the result
  is the dictionary of exactly the two keys \<^verbatim>\<open>state\<close> and \<^verbatim>\<open>rgb\<close> (\<^verbatim>\<open>rgbd\<close> unless
  \<open>rgb_only\<close>): the state is \<^verbatim>\<open>flatten_state_dict\<close> of the remaining items in their order,
  and every pixel of the image is the cameras' channels side by side along the last axis,
  in the cameras' order, colour before depth. And whenever a camera of \<^verbatim>\<open>sensor_data\<close> has no
  \<^verbatim>\<open>rgb\<close> entry, the flattener raises \<^verbatim>\<open>KeyError\<close>.
\<close>

theorem observation_flattens:
  "(sensor_data ob = Some sd \<and> sd \<noteq> [] \<and> sensor_param ob = Some sp \<and>
    list_all (camera_ok rgb_only sh) (map snd sd) \<and>
    flatten_state_dict (others ob) = Inr state
    \<longrightarrow> observation flatten_state_dict rgb_only ob =
        Inr [(''state'', StateTensor state),
             (if rgb_only then ''rgb'' else ''rgbd'',
              ImageTensor (stacked_image rgb_only sh (map snd sd)))]) \<and>
   (sensor_data ob' = Some sd' \<and> list_ex lacks_rgb (map snd sd')
    \<longrightarrow> observation flatten_state_dict rgb_only ob' = Inl KeyError)"
proof (intro conjI impI)
  assume a: "sensor_data ob = Some sd \<and> sd \<noteq> [] \<and> sensor_param ob = Some sp \<and>
    list_all (camera_ok rgb_only sh) (map snd sd) \<and>
    flatten_state_dict (others ob) = Inr state"
  then have ne: "map snd sd \<noteq> []" by simp
  from a have ok: "list_all (camera_ok rgb_only sh) (map snd sd)" by simp
  show "observation flatten_state_dict rgb_only ob =
        Inr [(''state'', StateTensor state),
             (if rgb_only then ''rgb'' else ''rgbd'',
              ImageTensor (stacked_image rgb_only sh (map snd sd)))]"
    using a collect_images_ok [OF ok] stack_ok [OF ne ok]
    by (cases rgb_only) (simp_all add: observation_def del: map_map)
next
  assume a: "sensor_data ob' = Some sd' \<and> list_ex lacks_rgb (map snd sd')"
  then have "collect_images rgb_only (map snd sd') = Inl KeyError"
    by (simp add: collect_images_lacks_rgb)
  with a show "observation flatten_state_dict rgb_only ob' = Inl KeyError"
    unfolding observation_def by (simp split: option.splits)
qed

lemmas obs_eval = demo_obs_def demo_obs_no_rgb_def demo_obs_mixed_def demo_flatten_state_dict_def
  img_def camera_ok_def image_ok_def lacks_rgb_def stacked_image_def camera_pixel_def

theorem observation_flattens_witness:
  "observation demo_flatten_state_dict False demo_obs =
     Inr [(''state'', StateTensor [1, 2, 3]),
          (''rgbd'', ImageTensor (img [2, 1] [[1, 2, 3, 7, 11, 12, 13, 17], [4, 5, 6, 8, 14, 15, 16, 18]]))] \<and>
   observation demo_flatten_state_dict False demo_obs_no_rgb = Inl KeyError"
  using observation_flattens [of demo_obs _ "[]" False "[2, 1]" demo_flatten_state_dict "[1, 2, 3]"
      demo_obs_no_rgb]
  by (simp add: obs_eval upt_rec)

text \<open>
  Two cameras that both carry colour and depth, of different resolutions: the flattener
  raises instead of returning a dictionary.
\<close>

theorem observation_fails_on_mixed_resolutions:
  "observation demo_flatten_state_dict False demo_obs_mixed = Inl RuntimeError"
  by (simp add: observation_def concat_last_def obs_eval)

subsection \<open>Flattening the rollout buffers\<close>

lemma take_drop_take: "a + n \<le> m \<Longrightarrow> take n (drop a (take m ys)) = take n (drop a ys)"
  by (simp add: drop_take min_def)

lemma filter_minus_one_int: "filter (\<lambda>d. d = - 1) (map int rest) = []"
  by (induction rest) auto

lemma filter_nonneg_int: "filter (\<lambda>d. 0 \<le> d) (map int rest) = map int rest"
  by (induction rest) auto

lemma map_nat_int: "map nat (map int rest) = rest"
  by (induction rest) auto

lemma map_infer_int: "map (\<lambda>d. if d = - 1 then c else nat d) (map int rest) = rest"
  by (induction rest) auto

lemma list_ex_int_below: "\<not> list_ex (\<lambda>d. d < - 1) (map int rest)"
  by (induction rest) auto

lemma list_ex_int_minus_one: "\<not> list_ex (\<lambda>d. d = - 1) (map int rest)"
  by (induction rest) auto

lemma prod_list_pos: "list_all (\<lambda>d. 0 < d) rest \<Longrightarrow> 0 < prod_list (rest :: nat list)"
  by (induction rest) auto

lemma infer_size_flat:
  assumes "0 < prod_list rest"
  shows "infer_size (- 1 # map int rest) (m * prod_list rest) = Inr (m # rest)"
  using assms unfolding infer_size_def
  by (simp add: filter_minus_one_int filter_nonneg_int map_nat_int map_infer_int
      list_ex_int_below list_ex_int_minus_one Let_def del: map_map)

lemma tensor_reshape_flat:
  assumes "t_shape x = T # N # rest" "list_all (\<lambda>d. 0 < d) rest"
  shows "tensor_reshape (- 1 # map int rest) x = Inr \<lparr> t_shape = (T * N) # rest, t_data = t_data x \<rparr>"
proof -
  have "numel x = (T * N) * prod_list rest" by (simp add: numel_def assms(1))
  then show ?thesis
    unfolding tensor_reshape_def using infer_size_flat [OF prod_list_pos [OF assms(2)], of "T * N"]
    by simp
qed

lemma tensor_getitem_two:
  assumes "t_shape x = T # N # rest" "t < T" "e < N"
  shows "tensor_getitem [t, e] x =
         Inr \<lparr> t_shape = rest,
               t_data = take (prod_list rest) (drop ((t * N + e) * prod_list rest) (t_data x)) \<rparr>"
proof -
  let ?P = "prod_list rest"
  from assms(3) have "Suc e \<le> N" by simp
  then have "Suc e * ?P \<le> N * ?P" by (rule mult_le_mono1)
  then have le: "e * ?P + ?P \<le> N * ?P" by simp
  have "take ?P (drop (e * ?P) (take (N * ?P) (drop (t * (N * ?P)) (t_data x))))
        = take ?P (drop (e * ?P) (drop (t * (N * ?P)) (t_data x)))"
    by (rule take_drop_take [OF le])
  also have "\<dots> = take ?P (drop ((t * N + e) * ?P) (t_data x))"
    by (simp add: algebra_simps)
  finally show ?thesis using assms by simp
qed

lemma tensor_getitem_one:
  assumes "t < T" "e < N"
  shows "tensor_getitem [t * N + e] \<lparr> t_shape = (T * N) # rest, t_data = xs \<rparr> =
         Inr \<lparr> t_shape = rest,
               t_data = take (prod_list rest) (drop ((t * N + e) * prod_list rest) xs) \<rparr>"
proof -
  from assms(1) have "Suc t \<le> T" by simp
  then have "Suc t * N \<le> T * N" by (rule mult_le_mono1)
  with assms(2) have "t * N + e < T * N" by simp
  then show ?thesis by simp
qed

lemma tensor_ok_shape:
  assumes "tensor_ok [T, N] x"
  shows "t_shape x = T # N # drop 2 (t_shape x)"
proof -
  from assms have "take 2 (t_shape x) = [T, N]" by (simp add: tensor_ok_def numeral_2_eq_2)
  then show ?thesis by (metis append_take_drop_id append_Cons append_Nil)
qed

lemma tensor_flat_aligned:
  assumes "tensor_ok [T, N] x" "t < T" "e < N"
  shows "\<exists>b. tensor_reshape (- 1 # map int (drop 2 (t_shape x))) x = Inr b \<and>
             tensor_ok [T * N] b \<and> same_entry x t e b (t * N + e)"
proof -
  let ?rest = "drop 2 (t_shape x)"
  let ?b = "\<lparr> t_shape = (T * N) # ?rest, t_data = t_data x \<rparr>"
  note sh = tensor_ok_shape [OF assms(1)]
  from assms(1) have pos: "list_all (\<lambda>d. 0 < d) ?rest"
    by (simp add: tensor_ok_def numeral_2_eq_2)
  have r: "tensor_reshape (- 1 # map int ?rest) x = Inr ?b"
    by (rule tensor_reshape_flat [OF sh pos])
  have ok: "tensor_ok [T * N] ?b" using pos by (simp add: tensor_ok_def)
  have "same_entry x t e ?b (t * N + e)"
    unfolding same_entry_def
    by (simp only: tensor_getitem_two [OF sh assms(2,3)] tensor_getitem_one [OF assms(2,3)]
        sum.case)
  with r ok show ?thesis by blast
qed

lemma entry_ok_shape: "entry_ok bs v \<Longrightarrow> take (length bs) (entry_shape v) = bs"
proof (cases v)
  case (Tensor x)
  assume "entry_ok bs v"
  with Tensor show ?thesis by (simp add: tensor_ok_def)
next
  case (Nested d)
  assume "entry_ok bs v"
  with Nested show ?thesis by (cases d) simp
qed

lemma reshape_aligned_all:
  fixes T N t e :: nat
  assumes "t < T" "e < N"
  shows "bs = [T, N] \<Longrightarrow> buffer_ok bs d \<Longrightarrow>
         \<exists>b. reshape [- 1] d = Inr b \<and> buffer_ok [T * N] b \<and> same_obs d t e b (t * N + e)"
    and "bs = [T, N] \<Longrightarrow> entry_ok bs v \<Longrightarrow>
         \<exists>b y. reshape_entry [- 1] 2 v = Inr b \<and> entry_ok [T * N] b \<and>
                getitem_entry [t, e] v = Inr y \<and> getitem_entry [t * N + e] b = Inr y"
    and "bs = [T, N] \<Longrightarrow> items_ok bs items \<Longrightarrow>
         \<exists>b y. reshape_items [- 1] 2 items = Inr b \<and> items_ok [T * N] b \<and>
                length b = length items \<and>
                getitem_items [t, e] items = Inr y \<and> getitem_items [t * N + e] b = Inr y"
proof (induction bs d and bs v and bs items rule: buffer_ok_entry_ok_items_ok.induct)
  case (1 bs bs' items)
  then have bs': "bs' = [T, N]" and ne: "items \<noteq> []" and io: "items_ok bs items" by simp_all
  from 1(1) [OF 1(2) io] obtain b y where
    r: "reshape_items [- 1] 2 items = Inr b" and ok: "items_ok [T * N] b" and
    len: "length b = length items" and
    g: "getitem_items [t, e] items = Inr y" and g': "getitem_items [t * N + e] b = Inr y"
    by blast
  from ne len obtain k v rest where b: "b = (k, v) # rest" by (cases b) auto
  with ok have "entry_ok [T * N] v" by simp
  from entry_ok_shape [OF this] have sh: "take (Suc 0) (entry_shape v) = [T * N]" by simp
  have rr: "reshape [- 1] (DictArray bs' items) = Inr (DictArray [T * N] b)"
    using r b sh by (simp add: bs' numeral_2_eq_2)
  have "buffer_ok [T * N] (DictArray [T * N] b)" using ok b by simp
  moreover have "same_obs (DictArray bs' items) t e (DictArray [T * N] b) (t * N + e)"
    by (simp add: same_obs_def g g')
  ultimately show ?case using rr by blast
next
  case (2 bs d)
  then obtain b where "reshape [- 1] d = Inr b" "buffer_ok [T * N] b" "same_obs d t e b (t * N + e)"
    by auto
  then show ?case by (auto simp: same_obs_def split: sum.splits)
next
  case (3 bs x)
  then have "tensor_ok [T, N] x" by simp
  from tensor_flat_aligned [OF this assms] obtain b where
    "tensor_reshape (- 1 # map int (drop 2 (t_shape x))) x = Inr b" "tensor_ok [T * N] b"
    "same_entry x t e b (t * N + e)" by blast
  then show ?case by (auto simp: same_entry_def split: sum.splits)
next
  case (4 bs)
  then show ?case by simp
next
  case (5 bs k v rest)
  then have "entry_ok bs v" "items_ok bs rest" by simp_all
  from 5(1) [OF 5(3) this(1)] 5(2) [OF 5(3) this(2)] show ?case by auto
qed

lemma scalar_flat_aligned:
  assumes "t_shape x = [T, N]" "t < T" "e < N"
  shows "\<exists>b. tensor_reshape [- 1] x = Inr b \<and> same_entry x t e b (t * N + e)"
proof -
  from assms(1) have "tensor_ok [T, N] x" by (simp add: tensor_ok_def)
  from tensor_flat_aligned [OF this assms(2,3)] show ?thesis by (auto simp: assms(1))
qed

lemma action_flat_aligned:
  assumes "t_shape x = T # N # A" "list_all (\<lambda>d. 0 < d) A" "t < T" "e < N"
  shows "\<exists>b. tensor_reshape (- 1 # map int A) x = Inr b \<and> same_entry x t e b (t * N + e)"
proof -
  from assms(1,2) have "tensor_ok [T, N] x" by (simp add: tensor_ok_def)
  from tensor_flat_aligned [OF this assms(3,4)] show ?thesis by (auto simp: assms(1))
qed

text \<open>
  Claim C10. Let the observation buffer be a \<^verbatim>\<open>DictArray\<close> over \<open>(T, N)\<close> (steps and
  environments), the buffers of log-probabilities, advantages, returns and values tensors
  of shape \<open>(T, N)\<close>, and the action buffer of shape \<open>(T, N)\<close> followed by the action shape.
  Then ``flatten the batch'' returns; \<^verbatim>\<open>DictArray.reshape\<close> gives every key, nested ones too,
  the one leading axis \<open>T * N\<close>; and for every step \<open>t < T\<close> and environment \<open>e < N\<close> the
  index \<open>t * N + e\<close> of each flattened buffer holds what the index \<open>[t, e]\<close> of the rollout
  buffer holds: for the observation the whole dictionary, so the same entry under every
  key.
\<close>

theorem flatten_batch_aligned:
  assumes "buffer_ok [T, N] (obs_t r)"
    and "t_shape (logprobs_t r) = [T, N]"
    and "t_shape (actions_t r) = T # N # action_shape"
    and "list_all (\<lambda>d. 0 < d) action_shape"
    and "t_shape (advantages_t r) = [T, N]"
    and "t_shape (returns_t r) = [T, N]"
    and "t_shape (values_t r) = [T, N]"
    and "t < T" and "e < N"
  shows "\<exists>b. flatten_batch action_shape r = Inr b \<and>
             buffer_ok [T * N] (b_obs_t b) \<and>
             same_obs (obs_t r) t e (b_obs_t b) (t * N + e) \<and>
             same_entry (logprobs_t r) t e (b_logprobs_t b) (t * N + e) \<and>
             same_entry (actions_t r) t e (b_actions_t b) (t * N + e) \<and>
             same_entry (advantages_t r) t e (b_advantages_t b) (t * N + e) \<and>
             same_entry (returns_t r) t e (b_returns_t b) (t * N + e) \<and>
             same_entry (values_t r) t e (b_values_t b) (t * N + e)"
proof -
  from reshape_aligned_all(1) [OF assms(8,9) refl assms(1)] obtain bo where
    bo: "reshape [- 1] (obs_t r) = Inr bo" "buffer_ok [T * N] bo"
      "same_obs (obs_t r) t e bo (t * N + e)" by blast
  from scalar_flat_aligned [OF assms(2,8,9)] obtain bl where
    bl: "tensor_reshape [- 1] (logprobs_t r) = Inr bl"
      "same_entry (logprobs_t r) t e bl (t * N + e)" by blast
  from action_flat_aligned [OF assms(3,4,8,9)] obtain ba where
    ba: "tensor_reshape (- 1 # map int action_shape) (actions_t r) = Inr ba"
      "same_entry (actions_t r) t e ba (t * N + e)" by blast
  from scalar_flat_aligned [OF assms(5,8,9)] obtain bad where
    bad: "tensor_reshape [- 1] (advantages_t r) = Inr bad"
      "same_entry (advantages_t r) t e bad (t * N + e)" by blast
  from scalar_flat_aligned [OF assms(6,8,9)] obtain br where
    br: "tensor_reshape [- 1] (returns_t r) = Inr br"
      "same_entry (returns_t r) t e br (t * N + e)" by blast
  from scalar_flat_aligned [OF assms(7,8,9)] obtain bv where
    bv: "tensor_reshape [- 1] (values_t r) = Inr bv"
      "same_entry (values_t r) t e bv (t * N + e)" by blast
  have "flatten_batch action_shape r =
        Inr \<lparr> b_obs_t = bo, b_logprobs_t = bl, b_actions_t = ba,
              b_advantages_t = bad, b_returns_t = br, b_values_t = bv \<rparr>"
    unfolding flatten_batch_def by (simp add: bo(1) bl(1) ba(1) bad(1) br(1) bv(1))
  then show ?thesis using bo bl ba bad br bv by simp
qed

lemmas flat_eval = demo_tensors_def demo_tensor_def tensor_ok_def same_obs_def same_entry_def
  flatten_batch_def tensor_reshape_def infer_size_def numel_def

theorem flatten_batch_aligned_witness:
  "\<exists>b. flatten_batch [2] demo_tensors = Inr b \<and>
       buffer_ok [6] (b_obs_t b) \<and>
       same_obs (obs_t demo_tensors) 1 1 (b_obs_t b) 4 \<and>
       same_entry (logprobs_t demo_tensors) 1 1 (b_logprobs_t b) 4 \<and>
       same_entry (actions_t demo_tensors) 1 1 (b_actions_t b) 4 \<and>
       same_entry (advantages_t demo_tensors) 1 1 (b_advantages_t b) 4 \<and>
       same_entry (returns_t demo_tensors) 1 1 (b_returns_t b) 4 \<and>
       same_entry (values_t demo_tensors) 1 1 (b_values_t b) 4 \<and>
       tensor_getitem [4] (b_logprobs_t b) = Inr (demo_tensor [] [- 21]) \<and>
       tensor_getitem [4] (b_actions_t b) = Inr (demo_tensor [2] [21, 0])"
  using flatten_batch_aligned [where T = 2 and N = 3 and r = demo_tensors
      and action_shape = "[2]" and t = 1 and e = 1]
  by (simp add: flat_eval)

end
